theory Spec2Isabelle
  imports Complex_Main "HOL-Library.Word"
begin

section \<open>JavaScript values used by the server\<close>

text \<open>
  A JavaScript string is a sequence of UTF-16 code units. Literals of the source are
  ASCII and are written through \<open>js\<close>.
\<close>

type_synonym jschar = "16 word"
type_synonym jsstring = "jschar list"

definition js :: "string \<Rightarrow> jsstring" where
  "js s = map of_char s"

text \<open>
  \<open>String.prototype.trim\<close> removes WhiteSpace and LineTerminator code units
  (ECMAScript): TAB, LF, VT, FF, CR, SP, NBSP, U+1680, U+2000..U+200A, U+2028, U+2029,
  U+202F, U+205F, U+3000 and U+FEFF.
\<close>

definition isWhiteSpace :: "jschar \<Rightarrow> bool" where
  "isWhiteSpace c =
     (c \<in> {0x9, 0xA, 0xB, 0xC, 0xD, 0x20, 0xA0, 0x1680, 0x2028, 0x2029, 0x202F, 0x205F,
            0x3000, 0xFEFF}
      \<or> (0x2000 \<le> c \<and> c \<le> 0x200A))"

definition trim :: "jsstring \<Rightarrow> jsstring" where
  "trim s = rev (dropWhile isWhiteSpace (rev (dropWhile isWhiteSpace s)))"

fun startsWith :: "jsstring \<Rightarrow> jsstring \<Rightarrow> bool" where
  "startsWith s [] = True"
| "startsWith [] (c # cs) = False"
| "startsWith (d # ds) (c # cs) = (d = c \<and> startsWith ds cs)"

fun includesStr :: "jsstring \<Rightarrow> jsstring \<Rightarrow> bool" where
  "includesStr [] needle = (needle = [])"
| "includesStr (c # cs) needle = (startsWith (c # cs) needle \<or> includesStr cs needle)"

text \<open>
  \<open>toLowerCase\<close> is only used in front of \<open>includes('ffmpeg')\<close> and
  \<open>includes('ffprobe')\<close>. No code unit outside A..Z lower-cases to one of the letters
  of these two words, and lower-casing never removes a code unit, so mapping A..Z alone
  gives the same answer to both tests.
\<close>

definition toLowerCase :: "jsstring \<Rightarrow> jsstring" where
  "toLowerCase s = map (\<lambda>c. if 0x41 \<le> c \<and> c \<le> 0x5A then c + 0x20 else c) s"

text \<open>Decimal rendering of a non-negative integer inside a template literal.\<close>

fun showNat :: "nat \<Rightarrow> jsstring" where
  "showNat n =
     (if n < 10 then [of_nat (48 + n)]
      else showNat (n div 10) @ [of_nat (48 + n mod 10)])"

text \<open>\<open>Array.prototype.join\<close> on an array of strings.\<close>

fun jsJoin :: "jsstring \<Rightarrow> jsstring list \<Rightarrow> jsstring" where
  "jsJoin sep [] = []"
| "jsJoin sep [x] = x"
| "jsJoin sep (x # y # ys) = x @ sep @ jsJoin sep (y # ys)"

text \<open>
  \<open>a || b\<close> where \<open>a\<close> is a string or undefined: the empty string and undefined are
  falsy.
\<close>

definition orElse :: "jsstring option \<Rightarrow> jsstring \<Rightarrow> jsstring" where
  "orElse a b = (case a of None \<Rightarrow> b | Some s \<Rightarrow> if s = [] then b else s)"

text \<open>
  An error value, with the properties the server reads: \<open>message\<close>, \<open>status\<close>,
  \<open>name\<close>, \<open>code\<close> and \<open>cause.code\<close>.
\<close>

record jserror =
  message :: "jsstring option"
  status :: "nat option"
  name :: "jsstring option"
  code :: "jsstring option"
  causeCode :: "jsstring option"

definition newError :: "jsstring \<Rightarrow> jserror" where
  "newError msg =
     \<lparr>message = Some msg, status = None, name = Some (js ''Error''), code = None,
      causeCode = None\<rparr>"

section \<open>The world outside the server\<close>

text \<open>
  The outcome of the spawned Python process: either the \<open>error\<close> event with its
  message, or the \<open>close\<close> event with the exit code (null when killed by a signal) and
  what was collected from stdout and stderr.
\<close>

datatype procOutcome =
    SpawnError jsstring
  | Closed "int option" jsstring jsstring

text \<open>Every call that leaves the process is recorded with its arguments and outcome.\<close>

datatype event =
    ExtractAudio jsstring jsstring "jserror + nat"
  | Probe jsstring "jserror + real option"
  | ExtractSegment jsstring jsstring real real "jserror + nat"
  | Stat jsstring "jserror + nat"
  | ApiCreate jsstring "jserror + jsstring option"
  | Unlink jsstring "jserror option"
  | Spawn jsstring procOutcome

datatype logline =
    ConsoleError jsstring jserror
  | ConsoleWarn jsstring "jsstring option"

text \<open>
  The file system maps each existing path to the size of its file. Durations are
  JavaScript numbers; they are modelled as real numbers of seconds.
\<close>

record world =
  files :: "jsstring \<rightharpoonup> nat"
  trace :: "event list"
  console :: "logline list"

text \<open>
  The collaborators, each a function of the world at the moment of the call, so that an
  answer may depend on everything that happened before:
  \<^item> the media tool: a run either completes and writes the output file (the result
    is the size of that file) or fails; a failed run may have written part of its
    output already: \<open>ffmpegDebris\<close> is what it leaves at the output path, nothing or
    a partial file of that size; ffprobe reports \<open>format.duration\<close>, which may be
    absent;
  \<^item> the remote service: the \<open>text\<close> property of the transcription, which may be
    absent, or the error of the client after its own retries;
  \<^item> the file system: \<open>stat\<close> and \<open>unlink\<close> fail on a missing path and where
    \<open>fsDenied\<close> says so, with the error \<open>fsFault\<close>;
  \<^item> the Python process and \<open>JSON.parse\<close>: \<open>jsonField s f\<close> is property \<open>f\<close> of
    the parsed text \<open>s\<close>, and \<open>None\<close> where parsing or the property read throws;
  \<^item> the functions of Node's \<open>path\<close> module.
\<close>

record env =
  ffmpegAudio :: "world \<Rightarrow> jsstring \<Rightarrow> jsstring \<Rightarrow> jserror + nat"
  ffprobe :: "world \<Rightarrow> jsstring \<Rightarrow> jserror + real option"
  ffmpegSegment :: "world \<Rightarrow> jsstring \<Rightarrow> jsstring \<Rightarrow> real \<Rightarrow> real \<Rightarrow> jserror + nat"
  ffmpegDebris :: "world \<Rightarrow> jsstring \<Rightarrow> nat option"
  whisperCreate :: "world \<Rightarrow> jsstring \<Rightarrow> jsstring \<Rightarrow> jserror + jsstring option"
  fsDenied :: "world \<Rightarrow> jsstring \<Rightarrow> bool"
  fsFault :: "world \<Rightarrow> jsstring \<Rightarrow> jserror"
  python :: "world \<Rightarrow> jsstring \<Rightarrow> procOutcome"
  jsonField :: "jsstring \<Rightarrow> jsstring \<Rightarrow> jsstring option option"
  basename :: "jsstring \<Rightarrow> jsstring \<Rightarrow> jsstring"
  extname :: "jsstring \<Rightarrow> jsstring"
  pathJoin :: "jsstring \<Rightarrow> jsstring \<Rightarrow> jsstring"

text \<open>What the process reads from its environment and its install directory.\<close>

record config =
  TRANSCRIPTION_MODE :: jsstring
  OPENAI_API_KEY :: "jsstring option"
  TEMP_DIR :: jsstring

definition emit :: "event \<Rightarrow> world \<Rightarrow> world" where
  "emit ev w = w\<lparr>trace := trace w @ [ev]\<rparr>"

definition fsStat :: "env \<Rightarrow> jsstring \<Rightarrow> world \<Rightarrow> (jserror + nat) \<times> world" where
  "fsStat e p w =
     (let r = (case files w p of
                 None \<Rightarrow> Inl (fsFault e w p)
               | Some n \<Rightarrow> if fsDenied e w p then Inl (fsFault e w p) else Inr n)
      in (r, emit (Stat p r) w))"

definition fsUnlink :: "env \<Rightarrow> jsstring \<Rightarrow> world \<Rightarrow> jserror option \<times> world" where
  "fsUnlink e p w =
     (if files w p = None \<or> fsDenied e w p
      then (Some (fsFault e w p), emit (Unlink p (Some (fsFault e w p))) w)
      else (None, emit (Unlink p None) (w\<lparr>files := (files w)(p := None)\<rparr>)))"

section \<open>server.js\<close>

definition WHISPER_MAX_SIZE :: nat where
  "WHISPER_MAX_SIZE = 25 * 1024 * 1024"

definition SEGMENT_DURATION_SEC :: real where
  "SEGMENT_DURATION_SEC = 600"

definition noSpeech :: jsstring where
  "noSpeech = js ''(No speech detected)''"

definition getDuration :: "env \<Rightarrow> jsstring \<Rightarrow> world \<Rightarrow> (jserror + real) \<times> world" where
  "getDuration e inputPath w =
     (let r = ffprobe e w inputPath; w1 = emit (Probe inputPath r) w
      in case r of
           Inl err \<Rightarrow> (Inl err, w1)
         | Inr d \<Rightarrow> (Inr (case d of None \<Rightarrow> 0 | Some x \<Rightarrow> x), w1))"

text \<open>The output path after a failed run of the media tool.\<close>

definition failedRun :: "env \<Rightarrow> world \<Rightarrow> jsstring \<Rightarrow> world \<Rightarrow> world" where
  "failedRun e w outputPath w1 =
     (case ffmpegDebris e w outputPath of
        None \<Rightarrow> w1
      | Some n \<Rightarrow> w1\<lparr>files := (files w1)(outputPath \<mapsto> n)\<rparr>)"

definition extractAudio ::
  "env \<Rightarrow> jsstring \<Rightarrow> jsstring \<Rightarrow> world \<Rightarrow> (jserror + jsstring) \<times> world" where
  "extractAudio e inputPath outputPath w =
     (let r = ffmpegAudio e w inputPath outputPath;
          w1 = emit (ExtractAudio inputPath outputPath r) w
      in case r of
           Inl err \<Rightarrow> (Inl err, failedRun e w outputPath w1)
         | Inr n \<Rightarrow> (Inr outputPath, w1\<lparr>files := (files w1)(outputPath \<mapsto> n)\<rparr>))"

definition extractSegment ::
  "env \<Rightarrow> jsstring \<Rightarrow> jsstring \<Rightarrow> real \<Rightarrow> real \<Rightarrow> world \<Rightarrow> (jserror + jsstring) \<times> world" where
  "extractSegment e inputPath outputPath startSec durationSec w =
     (let r = ffmpegSegment e w inputPath outputPath startSec durationSec;
          w1 = emit (ExtractSegment inputPath outputPath startSec durationSec r) w
      in case r of
           Inl err \<Rightarrow> (Inl err, failedRun e w outputPath w1)
         | Inr n \<Rightarrow> (Inr outputPath, w1\<lparr>files := (files w1)(outputPath \<mapsto> n)\<rparr>))"

text \<open>
  \<open>Math.round(size / 1024 / 1024)\<close>: the quotient is exact in binary floating point
  and \<open>Math.round\<close> rounds halves up.
\<close>

definition roundMB :: "nat \<Rightarrow> nat" where
  "roundMB n = (n + 524288) div 1048576"

definition segmentTooLarge :: "nat \<Rightarrow> jserror" where
  "segmentTooLarge n =
     newError (js ''Segment too large ('' @ showNat (roundMB n) @ js '' MB). Try shorter segments.'')"

text \<open>The result of \<open>transcribeFile\<close> is the transcription; only its \<open>text\<close> is kept.\<close>

definition transcribeFile ::
  "env \<Rightarrow> jsstring \<Rightarrow> jsstring \<Rightarrow> world \<Rightarrow> (jserror + jsstring option) \<times> world" where
  "transcribeFile e openai filePath w =
     (case fsStat e filePath w of
        (Inl err, w1) \<Rightarrow> (Inl err, w1)
      | (Inr n, w1) \<Rightarrow>
          if n > WHISPER_MAX_SIZE then (Inl (segmentTooLarge n), w1)
          else (let r = whisperCreate e w1 openai filePath
                in (r, emit (ApiCreate filePath r) w1)))"

definition runLocalWhisper ::
  "env \<Rightarrow> jsstring \<Rightarrow> world \<Rightarrow> (jserror + jsstring) \<times> world" where
  "runLocalWhisper e filePath w =
     (let out = python e w filePath; w1 = emit (Spawn filePath out) w
      in case out of
           SpawnError m \<Rightarrow>
             (Inl (newError (js ''Failed to run Python: '' @ m
                @ js ''. Is Python installed? Run: pip install -r requirements.txt'')), w1)
         | Closed exitCode stdout stderr \<Rightarrow>
             if exitCode \<noteq> Some 0 then
               (case jsonField e (orElse (Some (trim stderr)) (js ''{}'')) (js ''error'') of
                  Some errField \<Rightarrow>
                    (Inl (newError (orElse errField
                       (orElse (Some stderr) (js ''Python transcription failed'')))), w1)
                | None \<Rightarrow>
                    (let msg = orElse (Some stderr) (js ''Python transcription failed'')
                     in if includesStr msg (js ''No module named'')
                           \<or> includesStr msg (js ''ModuleNotFoundError'')
                        then (Inl (newError
                          (js ''Python packages missing. Run: pip install -r requirements.txt'')), w1)
                        else (Inl (newError msg), w1)))
             else
               (case jsonField e (trim stdout) (js ''text'') of
                  Some t \<Rightarrow> (Inr (orElse t noSpeech), w1)
                | None \<Rightarrow> (Inl (newError (js ''Invalid output from Python script'')), w1)))"

subsection \<open>transcribeLargeFile\<close>

text \<open>The path of segment number \<open>i\<close>, as the template literal builds it.\<close>

definition segPathOf :: "env \<Rightarrow> config \<Rightarrow> jsstring \<Rightarrow> nat \<Rightarrow> jsstring" where
  "segPathOf e cfg jobId i =
     pathJoin e (TEMP_DIR cfg) (jobId @ js ''-seg-'' @ showNat i @ js ''.mp3'')"

text \<open>
  The \<open>while\<close> loop. It returns the array \<open>segments\<close> as it stands when the loop is
  left, also when an extraction throws: the \<open>finally\<close> block reads it.
\<close>

function extractSegments ::
  "env \<Rightarrow> config \<Rightarrow> jsstring \<Rightarrow> jsstring \<Rightarrow> real \<Rightarrow> real \<Rightarrow> jsstring list \<Rightarrow> world
     \<Rightarrow> (jserror + unit) \<times> jsstring list \<times> world" where
  "extractSegments e cfg jobId audioPath duration start segments w =
     (if start < duration then
        (let segDuration = min SEGMENT_DURATION_SEC (duration - start);
             segPath = segPathOf e cfg jobId (length segments)
         in case extractSegment e audioPath segPath start segDuration w of
              (Inl err, w1) \<Rightarrow> (Inl err, segments, w1)
            | (Inr _, w1) \<Rightarrow>
                extractSegments e cfg jobId audioPath duration (start + segDuration)
                  (segments @ [segPath]) w1)
      else (Inr (), segments, w))"
  by pat_completeness auto

termination
proof (relation "measure (\<lambda>(e, cfg, jobId, audioPath, duration, start, segments, w).
                   nat \<lceil>(duration - start) / SEGMENT_DURATION_SEC\<rceil>)", goal_cases)
  case 1
  show ?case by simp
next
  case (2 e cfg jobId audioPath duration start segments w segDuration segPath r w1 x)
  have lt: "start < duration" by (rule 2(1))
  have sd: "segDuration = min 600 (duration - start)"
    using 2(2) by (simp add: SEGMENT_DURATION_SEC_def)
  have "nat \<lceil>(duration - (start + segDuration)) / 600\<rceil> < nat \<lceil>(duration - start) / 600\<rceil>"
  proof (cases "duration - start \<le> 600")
    case True
    then have "duration - (start + segDuration) = 0" using sd by simp
    moreover have "0 < \<lceil>(duration - start) / 600\<rceil>" using lt by simp
    ultimately show ?thesis by simp
  next
    case False
    then have "duration - (start + segDuration) = (duration - start) - 600"
      using sd by simp
    then have "(duration - (start + segDuration)) / 600 = (duration - start) / 600 - 1"
      by (simp only: diff_divide_distrib)
    then have "\<lceil>(duration - (start + segDuration)) / 600\<rceil> = \<lceil>(duration - start) / 600 - 1\<rceil>"
      by (simp only:)
    then have "\<lceil>(duration - (start + segDuration)) / 600\<rceil> = \<lceil>(duration - start) / 600\<rceil> - 1"
      by (simp only: ceiling_diff_one)
    moreover have "0 < \<lceil>(duration - start) / 600\<rceil>" using lt by simp
    ultimately show ?thesis by simp
  qed
  then show ?case by (simp add: SEGMENT_DURATION_SEC_def)
qed

text \<open>
  The arithmetic of the same loop alone, with the length of a segment as a parameter
  \<open>L\<close> in the place of the constant: the ranges \<open>(start, segDuration)\<close> in the order the
  loop computes them. For \<open>L \<le> 0\<close> the loop does not end, hence the option.
\<close>

partial_function (option) planLoop ::
  "real \<Rightarrow> real \<Rightarrow> real \<Rightarrow> (real \<times> real) list \<Rightarrow> (real \<times> real) list option" where
  "planLoop L duration start plan =
     (if start < duration then
        (let segDuration = min L (duration - start)
         in planLoop L duration (start + segDuration) (plan @ [(start, segDuration)]))
      else Some plan)"

text \<open>\<open>result.text?.trim() || ''\<close>\<close>

definition segText :: "jsstring option \<Rightarrow> jsstring" where
  "segText t = orElse (map_option trim t) []"

text \<open>The \<open>for\<close> loop over the segment files.\<close>

fun transcribeAll ::
  "env \<Rightarrow> jsstring \<Rightarrow> jsstring list \<Rightarrow> jsstring list \<Rightarrow> world
     \<Rightarrow> (jserror + jsstring list) \<times> world" where
  "transcribeAll e openai [] texts w = (Inr texts, w)"
| "transcribeAll e openai (segPath # rest) texts w =
     (case transcribeFile e openai segPath w of
        (Inl err, w1) \<Rightarrow> (Inl err, w1)
      | (Inr result, w1) \<Rightarrow> transcribeAll e openai rest (texts @ [segText result]) w1)"

text \<open>\<open>texts.filter(Boolean).join('\n\n') || '(No speech detected)'\<close>\<close>

definition assemble :: "jsstring list \<Rightarrow> jsstring" where
  "assemble texts = orElse (Some (jsJoin [0xA, 0xA] (filter (\<lambda>t. t \<noteq> []) texts))) noSpeech"

text \<open>The \<open>try\<close> block: its result or the error thrown, and \<open>segments\<close> at its exit.\<close>

definition tryBlock ::
  "env \<Rightarrow> config \<Rightarrow> jsstring \<Rightarrow> jsstring \<Rightarrow> jsstring \<Rightarrow> jsstring \<Rightarrow> world
     \<Rightarrow> (jserror + jsstring) \<times> jsstring list \<times> world" where
  "tryBlock e cfg openai filePath jobId audioPath w =
     (case extractAudio e filePath audioPath w of
        (Inl err, w1) \<Rightarrow> (Inl err, [], w1)
      | (Inr _, w1) \<Rightarrow>
          (case getDuration e audioPath w1 of
             (Inl err, w2) \<Rightarrow> (Inl err, [], w2)
           | (Inr duration, w2) \<Rightarrow>
               (case extractSegments e cfg jobId audioPath duration 0 [] w2 of
                  (Inl err, segments, w3) \<Rightarrow> (Inl err, segments, w3)
                | (Inr _, segments, w3) \<Rightarrow>
                    (case transcribeAll e openai segments [] w3 of
                       (Inl err, w4) \<Rightarrow> (Inl err, segments, w4)
                     | (Inr texts, w4) \<Rightarrow> (Inr (assemble texts), segments, w4)))))"

text \<open>The \<open>finally\<close> block: every path of \<open>toDelete\<close> in turn, errors dropped.\<close>

fun unlinkAll :: "env \<Rightarrow> jsstring list \<Rightarrow> world \<Rightarrow> world" where
  "unlinkAll e [] w = w"
| "unlinkAll e (p # ps) w = unlinkAll e ps (snd (fsUnlink e p w))"

definition jobIdOf :: "env \<Rightarrow> jsstring \<Rightarrow> jsstring" where
  "jobIdOf e filePath = basename e filePath (extname e filePath)"

definition audioPathOf :: "env \<Rightarrow> config \<Rightarrow> jsstring \<Rightarrow> jsstring" where
  "audioPathOf e cfg filePath = pathJoin e (TEMP_DIR cfg) (jobIdOf e filePath @ js ''-audio.mp3'')"

definition transcribeLargeFile ::
  "env \<Rightarrow> config \<Rightarrow> jsstring \<Rightarrow> jsstring \<Rightarrow> world \<Rightarrow> (jserror + jsstring) \<times> world" where
  "transcribeLargeFile e cfg openai filePath w =
     (let jobId = jobIdOf e filePath;
          audioPath = audioPathOf e cfg filePath
      in case tryBlock e cfg openai filePath jobId audioPath w of
           (r, segments, w1) \<Rightarrow> (r, unlinkAll e (audioPath # segments) w1))"

subsection \<open>The handler of POST /api/transcribe\<close>

text \<open>\<open>req.file\<close> as multer leaves it: the path of the stored upload and its size.\<close>

record upload =
  uploadPath :: jsstring
  uploadSize :: nat

datatype body = TextBody jsstring | ErrorBody jsstring

record response =
  statusCode :: nat
  body :: body

definition respond :: "nat \<Rightarrow> body \<Rightarrow> response" where
  "respond c b = \<lparr>statusCode = c, body = b\<rparr>"

text \<open>\<open>err.message?.toLowerCase().includes(s)\<close> and \<open>err.message?.includes(s)\<close>\<close>

definition lowerMessageIncludes :: "jserror \<Rightarrow> jsstring \<Rightarrow> bool" where
  "lowerMessageIncludes err s =
     (case message err of None \<Rightarrow> False | Some m \<Rightarrow> includesStr (toLowerCase m) s)"

definition messageIncludes :: "jserror \<Rightarrow> jsstring \<Rightarrow> bool" where
  "messageIncludes err s =
     (case message err of None \<Rightarrow> False | Some m \<Rightarrow> includesStr m s)"

definition isConnectionError :: "jserror \<Rightarrow> bool" where
  "isConnectionError err =
     (name err = Some (js ''APIConnectionError'')
      \<or> causeCode err = Some (js ''ECONNRESET'')
      \<or> causeCode err = Some (js ''ETIMEDOUT'')
      \<or> causeCode err = Some (js ''ENOTFOUND''))"

text \<open>The \<open>catch\<close> block, after its \<open>console.error\<close>.\<close>

definition errorResponse :: "jserror \<Rightarrow> response" where
  "errorResponse err =
     (if lowerMessageIncludes err (js ''ffmpeg'') \<or> lowerMessageIncludes err (js ''ffprobe'')
      then respond 500 (ErrorBody (js
        ''FFmpeg is required for large videos. Install it from https://ffmpeg.org and ensure it is in your PATH.''))
      else if status err = Some 401
      then respond 401 (ErrorBody (js ''Invalid API key. Check your OPENAI_API_KEY.''))
      else if status err = Some 429
      then respond 429 (ErrorBody (js ''Rate limit exceeded. Please wait a moment and try again.''))
      else if isConnectionError err
      then respond 503 (ErrorBody (js
        ''Connection to OpenAI failed. Check your internet, try again, or use a VPN if OpenAI is blocked in your region.''))
      else if code err = Some (js ''LIMIT_FILE_SIZE'')
      then respond 400 (ErrorBody (js ''File too large. Maximum size is 200 MB.''))
      else if messageIncludes err (js ''Invalid file type'')
      then respond 400 (ErrorBody (orElse (message err) []))
      else respond 500 (ErrorBody
             (orElse (message err) (js ''Transcription failed. Please try again.''))))"

text \<open>
  The \<open>try\<close> block of the handler: a response sent (by an early \<open>return\<close> or by the final
  \<open>res.json({ text })\<close>), or the error thrown.
\<close>

definition handlerTry ::
  "env \<Rightarrow> config \<Rightarrow> upload option \<Rightarrow> world \<Rightarrow> (jserror + response) \<times> world" where
  "handlerTry e cfg reqFile w =
     (case reqFile of
        None \<Rightarrow> (Inr (respond 400 (ErrorBody (js ''No file uploaded''))), w)
      | Some f \<Rightarrow>
          (let filePath = uploadPath f; fileSize = uploadSize f
           in if TRANSCRIPTION_MODE cfg = js ''local'' then
                (case runLocalWhisper e filePath w of
                   (Inl err, w1) \<Rightarrow> (Inl err, w1)
                 | (Inr text, w1) \<Rightarrow> (Inr (respond 200 (TextBody text)), w1))
              else if orElse (OPENAI_API_KEY cfg) [] = [] then
                (Inr (respond 500 (ErrorBody (js
                   ''OPENAI_API_KEY is not set. Add it to .env for API mode, or set TRANSCRIPTION_MODE=local for local Whisper.''))), w)
              else
                (let openai = orElse (OPENAI_API_KEY cfg) []
                 in if fileSize \<le> WHISPER_MAX_SIZE then
                      (case transcribeFile e openai filePath w of
                         (Inl err, w1) \<Rightarrow> (Inl err, w1)
                       | (Inr transcription, w1) \<Rightarrow>
                           (Inr (respond 200 (TextBody (orElse transcription noSpeech))), w1))
                    else
                      (case transcribeLargeFile e cfg openai filePath w of
                         (Inl err, w1) \<Rightarrow> (Inl err, w1)
                       | (Inr text, w1) \<Rightarrow> (Inr (respond 200 (TextBody text)), w1)))))"

definition handlerCatch ::
  "(jserror + response) \<times> world \<Rightarrow> response \<times> world" where
  "handlerCatch rw =
     (case rw of
        (Inr resp, w) \<Rightarrow> (resp, w)
      | (Inl err, w) \<Rightarrow>
          (errorResponse err,
           w\<lparr>console := console w @ [ConsoleError (js ''Transcription error:'') err]\<rparr>))"

text \<open>The \<open>finally\<close> block of the handler: \<open>filePath\<close> is set once \<open>req.file\<close> was there.\<close>

definition handlerFinally :: "env \<Rightarrow> upload option \<Rightarrow> world \<Rightarrow> world" where
  "handlerFinally e reqFile w =
     (case reqFile of
        None \<Rightarrow> w
      | Some f \<Rightarrow>
          if uploadPath f = [] then w
          else (case fsUnlink e (uploadPath f) w of
                  (None, w1) \<Rightarrow> w1
                | (Some err, w1) \<Rightarrow>
                    w1\<lparr>console := console w1
                          @ [ConsoleWarn (js ''Could not delete temp file:'') (message err)]\<rparr>))"

definition handler :: "env \<Rightarrow> config \<Rightarrow> upload option \<Rightarrow> world \<Rightarrow> response \<times> world" where
  "handler e cfg reqFile w =
     (case handlerCatch (handlerTry e cfg reqFile w) of
        (resp, w1) \<Rightarrow> (resp, handlerFinally e reqFile w1))"

section \<open>lib/local-whisper.js\<close>

definition WHISPER_CHUNK_SEC :: nat where
  "WHISPER_CHUNK_SEC = 30"

definition samplesPerChunk :: nat where
  "samplesPerChunk = 16000 * WHISPER_CHUNK_SEC"

text \<open>
  The chunk loop of \<open>transcribeLocal\<close> over the decoded samples; \<open>transcriber\<close> answers
  with \<open>result?.text\<close> or throws.
\<close>

function chunkLoop ::
  "('a list \<Rightarrow> jserror + jsstring option) \<Rightarrow> 'a list \<Rightarrow> nat \<Rightarrow> jsstring list
     \<Rightarrow> jserror + jsstring list" where
  "chunkLoop transcriber audioData start texts =
     (if start < length audioData then
        (let end = min (start + samplesPerChunk) (length audioData);
             chunk = take (end - start) (drop start audioData)
         in case transcriber chunk of
              Inl err \<Rightarrow> Inl err
            | Inr r \<Rightarrow>
                (let t = map_option trim r
                 in chunkLoop transcriber audioData (start + samplesPerChunk)
                      (if orElse t [] \<noteq> [] then texts @ [orElse t []] else texts)))
      else Inr texts)"
  by pat_completeness auto
termination
  by (relation "measure (\<lambda>(transcriber, audioData, start, texts). length audioData - start)")
     (auto simp: samplesPerChunk_def WHISPER_CHUNK_SEC_def)

definition transcribeLocalChunks ::
  "('a list \<Rightarrow> jserror + jsstring option) \<Rightarrow> 'a list \<Rightarrow> jserror + jsstring" where
  "transcribeLocalChunks transcriber audioData =
     (case chunkLoop transcriber audioData 0 [] of
        Inl err \<Rightarrow> Inl err
      | Inr texts \<Rightarrow> Inr (orElse (Some (trim (jsJoin (js '' '') texts))) noSpeech))"

section \<open>The result assembler as the specification words it\<close>

text \<open>
  \<open>join(orderedTexts)\<close>: trim each text, drop the texts that are empty after
  trimming, join the rest with a blank line, trim the result, and return the sentinel
  when that is empty.
\<close>

definition joinSpec :: "jsstring list \<Rightarrow> jsstring" where
  "joinSpec orderedTexts =
     (let joined = trim (jsJoin [0xA, 0xA] (filter (\<lambda>t. t \<noteq> []) (map trim orderedTexts)))
      in if joined = [] then noSpeech else joined)"

section \<open>The segment plan as the specification words it\<close>

text \<open>
  \<open>plan(T, L)\<close>: the ranges \<open>(0, min(L, T)), (L, min(L, T - L)), ...\<close>, one for each
  multiple of \<open>L\<close> below \<open>T\<close>. \<open>rangesFrom\<close> is the same list for a plan that starts
  at \<open>s\<close>.
\<close>

definition rangesFrom :: "real \<Rightarrow> real \<Rightarrow> real \<Rightarrow> nat \<Rightarrow> (real \<times> real) list" where
  "rangesFrom L T s n = map (\<lambda>k. (s + real k * L, min L (T - (s + real k * L)))) [0..<n]"

definition planSpec :: "real \<Rightarrow> real \<Rightarrow> (real \<times> real) list" where
  "planSpec T L = rangesFrom L T 0 (nat \<lceil>T / L\<rceil>)"

section \<open>Describing a run\<close>

text \<open>
  The events of a completed phase: the extractions of the planned ranges, the
  transcriptions of the segment files (a \<open>stat\<close> and a request each), and the
  deletions of the \<open>finally\<close> block.
\<close>

definition segEvents ::
  "jsstring \<Rightarrow> jsstring list \<Rightarrow> (real \<times> real) list \<Rightarrow> nat list \<Rightarrow> event list" where
  "segEvents audioPath paths plan sizes =
     map (\<lambda>(p, (start, d), n). ExtractSegment audioPath p start d (Inr n))
       (zip paths (zip plan sizes))"

definition apiEvents :: "jsstring list \<Rightarrow> nat list \<Rightarrow> jsstring option list \<Rightarrow> event list" where
  "apiEvents paths sizes results =
     concat (map (\<lambda>(p, n, t). [Stat p (Inr n), ApiCreate p (Inr t)])
       (zip paths (zip sizes results)))"

definition unlinkEvents :: "jsstring list \<Rightarrow> jserror option list \<Rightarrow> event list" where
  "unlinkEvents paths outcomes = map (\<lambda>(p, r). Unlink p r) (zip paths outcomes)"

text \<open>The paths handed to \<open>fs.stat\<close> and to the remote service, in the order of the calls.\<close>

fun statCalls :: "event list \<Rightarrow> jsstring list" where
  "statCalls [] = []"
| "statCalls (Stat p r # evs) = p # statCalls evs"
| "statCalls (ev # evs) = statCalls evs"

fun apiCalls :: "event list \<Rightarrow> jsstring list" where
  "apiCalls [] = []"
| "apiCalls (ApiCreate p r # evs) = p # apiCalls evs"
| "apiCalls (ev # evs) = apiCalls evs"

text \<open>The calls of the media tool and of the Python process.\<close>

fun mediaCalls :: "event list \<Rightarrow> event list" where
  "mediaCalls [] = []"
| "mediaCalls (ExtractAudio i out r # evs) = ExtractAudio i out r # mediaCalls evs"
| "mediaCalls (Probe p r # evs) = Probe p r # mediaCalls evs"
| "mediaCalls (ExtractSegment i out s d r # evs) = ExtractSegment i out s d r # mediaCalls evs"
| "mediaCalls (ev # evs) = mediaCalls evs"

fun spawnCalls :: "event list \<Rightarrow> jsstring list" where
  "spawnCalls [] = []"
| "spawnCalls (Spawn p out # evs) = p # spawnCalls evs"
| "spawnCalls (ev # evs) = spawnCalls evs"

section \<open>A concrete installation\<close>

text \<open>
  A media tool that renders 4 MB of audio lasting 700 seconds and 1 MB per segment and
  leaves nothing behind when it fails, a file system that denies nothing, a service
  that hears "hi" in every segment, and a 30 MB upload.
\<close>

definition demoEnv :: env where
  "demoEnv =
     \<lparr>ffmpegAudio = (\<lambda>w i out. Inr 4000000),
      ffprobe = (\<lambda>w p. Inr (Some 700)),
      ffmpegSegment = (\<lambda>w i out s d. Inr 1000000),
      ffmpegDebris = (\<lambda>w out. None),
      whisperCreate = (\<lambda>w key p. Inr (Some (js ''hi''))),
      fsDenied = (\<lambda>w p. False),
      fsFault = (\<lambda>w p. newError (js ''ENOENT'')),
      python = (\<lambda>w p. Closed (Some 0) (js ''{}'') []),
      jsonField = (\<lambda>s f. Some None),
      basename = (\<lambda>p ext. js ''v''),
      extname = (\<lambda>p. js ''.mp4''),
      pathJoin = (\<lambda>a b. a @ js ''/'' @ b)\<rparr>"

definition demoWorld :: world where
  "demoWorld = \<lparr>files = [js ''u.mp4'' \<mapsto> 30000000], trace = [], console = []\<rparr>"

definition demoConfig :: config where
  "demoConfig =
     \<lparr>TRANSCRIPTION_MODE = js ''api'', OPENAI_API_KEY = Some (js ''k''), TEMP_DIR = js ''t''\<rparr>"

definition demoUpload :: upload where
  "demoUpload = \<lparr>uploadPath = js ''u.mp4'', uploadSize = 30000000\<rparr>"

text \<open>The same installation with 1500 seconds of audio and a service that fails on segment 1.\<close>

definition failingEnv :: env where
  "failingEnv =
     demoEnv\<lparr>ffprobe := (\<lambda>w p. Inr (Some 1500)),
             whisperCreate := (\<lambda>w key p. if p = js ''t/v-seg-1.mp3''
                                then Inl (newError (js ''boom''))
                                else Inr (Some (js ''hi'')))\<rparr>"

text \<open>
  Further installations: a 1000-byte upload, the local mode, the remote mode without
  a key, and a media tool whose segment files are 30 MB each.
\<close>

definition smallUpload :: upload where
  "smallUpload = \<lparr>uploadPath = js ''s.mp3'', uploadSize = 1000\<rparr>"

definition smallWorld :: world where
  "smallWorld = \<lparr>files = [js ''s.mp3'' \<mapsto> 1000], trace = [], console = []\<rparr>"

definition localConfig :: config where
  "localConfig = demoConfig\<lparr>TRANSCRIPTION_MODE := js ''local''\<rparr>"

definition noKeyConfig :: config where
  "noKeyConfig = demoConfig\<lparr>OPENAI_API_KEY := None\<rparr>"

definition bigSegmentEnv :: env where
  "bigSegmentEnv = demoEnv\<lparr>ffmpegSegment := (\<lambda>w i out s d. Inr 30000000)\<rparr>"

text \<open>
  A media tool that fails while it writes segment 1, with 5000 bytes of it on disk.
\<close>

definition partialEnv :: env where
  "partialEnv =
     demoEnv\<lparr>ffmpegSegment :=
               (\<lambda>w i out s d. if out = js ''t/v-seg-1.mp3''
                  then Inl (newError (js ''ffmpeg exited with code 1: No space left on device''))
                  else Inr 1000000),
             ffmpegDebris := (\<lambda>w out. Some 5000)\<rparr>"

text \<open>A service that rejects the key.\<close>

definition unauthorizedEnv :: env where
  "unauthorizedEnv =
     demoEnv\<lparr>whisperCreate :=
       (\<lambda>w key p. Inl ((newError (js ''Incorrect API key provided''))\<lparr>status := Some 401\<rparr>))\<rparr>"

declare extractSegments.simps [simp del]
declare chunkLoop.simps [simp del]
declare showNat.simps [simp del]

section \<open>Properties of trimming and joining\<close>

lemma last_dropWhile_self: "dropWhile P xs \<noteq> [] \<Longrightarrow> last (dropWhile P xs) = last xs"
  by (induction xs) (auto split: if_splits)

lemma trim_Nil: "trim [] = []"
  by (simp add: trim_def)

lemma trim_idem_tight:
  assumes "s \<noteq> []" "\<not> isWhiteSpace (hd s)" "\<not> isWhiteSpace (last s)"
  shows "trim s = s"
proof -
  have a: "dropWhile isWhiteSpace s = s"
    using assms(1,2) by (cases s) auto
  have "rev s \<noteq> []" "\<not> isWhiteSpace (hd (rev s))"
    using assms(1,3) by (simp_all add: hd_rev)
  then have "dropWhile isWhiteSpace (rev s) = rev s"
    by (cases "rev s") auto
  with a show ?thesis by (simp add: trim_def)
qed

lemma trim_tight:
  assumes "trim s \<noteq> []"
  shows "\<not> isWhiteSpace (hd (trim s)) \<and> \<not> isWhiteSpace (last (trim s))"
proof -
  let ?a = "dropWhile isWhiteSpace s"
  let ?b = "dropWhile isWhiteSpace (rev ?a)"
  have t: "trim s = rev ?b" by (simp add: trim_def)
  have b: "?b \<noteq> []" using assms t by simp
  have a: "?a \<noteq> []"
  proof
    assume e: "?a = []"
    have "?b = []" unfolding e by simp
    with b show False by contradiction
  qed
  have "\<not> isWhiteSpace (hd ?b)" using b by (rule hd_dropWhile)
  then have l: "\<not> isWhiteSpace (last (trim s))" using b t by (simp add: last_rev)
  have "last ?b = last (rev ?a)" using b by (rule last_dropWhile_self)
  also have "\<dots> = hd ?a" using a by (simp add: last_rev)
  finally have "hd (trim s) = hd ?a" using b t by (simp add: hd_rev)
  moreover have "\<not> isWhiteSpace (hd ?a)" using a by (rule hd_dropWhile)
  ultimately show ?thesis using l by simp
qed

lemma jsJoin_tight:
  assumes "xs \<noteq> []"
    and "\<forall>x\<in>set xs. x \<noteq> [] \<and> \<not> isWhiteSpace (hd x) \<and> \<not> isWhiteSpace (last x)"
  shows "jsJoin sep xs \<noteq> [] \<and> \<not> isWhiteSpace (hd (jsJoin sep xs))
         \<and> \<not> isWhiteSpace (last (jsJoin sep xs))"
  using assms by (induction sep xs rule: jsJoin.induct) auto

lemma segText_Some: "segText (Some t) = trim t"
  by (simp add: segText_def orElse_def)

lemma segText_None: "segText None = []"
  by (simp add: segText_def orElse_def)

lemma trim_join_trimmed:
  "trim (jsJoin sep (filter (\<lambda>t. t \<noteq> []) (map trim ts)))
   = jsJoin sep (filter (\<lambda>t. t \<noteq> []) (map trim ts))"
proof (cases "filter (\<lambda>t. t \<noteq> []) (map trim ts) = []")
  case True
  then show ?thesis by (simp add: trim_Nil)
next
  case False
  have "\<forall>x\<in>set (filter (\<lambda>t. t \<noteq> []) (map trim ts)).
          x \<noteq> [] \<and> \<not> isWhiteSpace (hd x) \<and> \<not> isWhiteSpace (last x)"
    using trim_tight by auto
  from jsJoin_tight[OF False this] show ?thesis
    by (intro trim_idem_tight) auto
qed

lemma assemble_joinSpec:
  "assemble (map segText rs) = joinSpec (map (\<lambda>r. case r of None \<Rightarrow> [] | Some t \<Rightarrow> t) rs)"
proof -
  have "map segText rs = map trim (map (\<lambda>r. case r of None \<Rightarrow> [] | Some t \<Rightarrow> t) rs)"
    by (auto simp: segText_Some segText_None trim_Nil split: option.splits)
  then show ?thesis
    by (simp only: trim_join_trimmed assemble_def joinSpec_def Let_def orElse_def option.case)
qed

text \<open>
  C5. The result assembly of \<open>transcribeLargeFile\<close> (line 171 applied to each result,
  then line 174) computes, on any ordered list of per-segment texts, exactly what the
  specification's join describes: each text trimmed, the empty ones dropped, the rest
  joined in order with a blank line, the result trimmed, and the sentinel returned when
  that is empty. A result without a text counts as the empty text. The join of no texts
  and the join of an empty and a blank text are the sentinel, and the join of
  "  Hello ", "" and "world  " is "Hello", a blank line, "world".
\<close>

theorem C5_join_refines_spec:
  "assemble (map (\<lambda>t. segText (Some t)) ts) = joinSpec ts
   \<and> assemble (map segText rs) = joinSpec (map (\<lambda>r. case r of None \<Rightarrow> [] | Some t \<Rightarrow> t) rs)
   \<and> assemble (map segText []) = js ''(No speech detected)''
   \<and> assemble (map segText [Some (js ''''), Some (js ''  '')]) = js ''(No speech detected)''
   \<and> assemble (map segText [Some (js ''  Hello ''), Some (js ''''), Some (js ''world  '')])
       = js ''Hello'' @ [0xA, 0xA] @ js ''world''"
proof -
  have "assemble (map segText (map Some ts)) = joinSpec ts"
    by (simp only: assemble_joinSpec) (simp add: comp_def)
  then have 1: "assemble (map (\<lambda>t. segText (Some t)) ts) = joinSpec ts"
    by (simp add: comp_def)
  have 3: "assemble (map segText []) = js ''(No speech detected)''"
    by (simp add: assemble_def orElse_def noSpeech_def)
  have 4: "assemble (map segText [Some (js ''''), Some (js ''  '')]) = js ''(No speech detected)''"
    by (simp add: assemble_def orElse_def noSpeech_def segText_def trim_def js_def
        isWhiteSpace_def)
  have 5: "assemble (map segText [Some (js ''  Hello ''), Some (js ''''), Some (js ''world  '')])
       = js ''Hello'' @ [0xA, 0xA] @ js ''world''"
    by (simp add: assemble_def orElse_def noSpeech_def segText_def trim_def js_def
        isWhiteSpace_def)
  from 1 assemble_joinSpec 3 4 5 show ?thesis by blast
qed

section \<open>Properties of the segmentation loop\<close>

lemma ceil_step:
  fixes L T s :: real
  assumes "0 < L" "s < T"
  shows "nat \<lceil>(T - s) / L\<rceil> = Suc (nat \<lceil>(T - (s + min L (T - s))) / L\<rceil>)"
proof (cases "T - s \<le> L")
  case True
  then have "(T - s) / L \<le> 1" using assms by (simp add: field_simps)
  moreover have "0 < (T - s) / L" using assms by simp
  ultimately have "\<lceil>(T - s) / L\<rceil> = 1" by (simp add: ceiling_eq_iff)
  moreover have "T - (s + min L (T - s)) = 0" using True by simp
  ultimately show ?thesis by simp
next
  case False
  then have "T - (s + min L (T - s)) = (T - s) - L" by simp
  then have "(T - (s + min L (T - s))) / L = (T - s) / L - 1"
    using assms by (simp add: field_simps)
  then have e: "\<lceil>(T - (s + min L (T - s))) / L\<rceil> = \<lceil>(T - s) / L\<rceil> - 1"
    by (simp only: ceiling_diff_one)
  have "1 < (T - s) / L" using False assms by (simp add: field_simps)
  then have c: "1 < \<lceil>(T - s) / L\<rceil>" by (simp add: less_ceiling_iff)
  have "nat \<lceil>(T - s) / L\<rceil> = Suc (nat (\<lceil>(T - s) / L\<rceil> - 1))"
    using c by linarith
  then show ?thesis by (simp only: e)
qed

lemma ceil_done:
  fixes L T s :: real
  assumes "0 < L"
  shows "nat \<lceil>(T - s) / L\<rceil> = 0 \<longleftrightarrow> \<not> s < T"
proof -
  have "\<lceil>(T - s) / L\<rceil> \<le> 0 \<longleftrightarrow> (T - s) / L \<le> 0" by (simp add: ceiling_le_iff)
  also have "\<dots> \<longleftrightarrow> T - s \<le> 0" using assms by (simp add: divide_le_0_iff)
  finally show ?thesis by auto
qed

lemma rangesFrom_Suc:
  "rangesFrom L T s (Suc n) = (s, min L (T - s)) # rangesFrom L T (s + L) n"
proof -
  have "[0..<Suc n] = 0 # map Suc [0..<n]"
    by (simp only: map_Suc_upt upt_conv_Cons[of 0 "Suc n"])
  then show ?thesis
    by (simp add: rangesFrom_def comp_def algebra_simps)
qed

lemma planLoop_closed:
  assumes "0 < L"
  shows "planLoop L T s acc = Some (acc @ rangesFrom L T s (nat \<lceil>(T - s) / L\<rceil>))"
proof (induction "nat \<lceil>(T - s) / L\<rceil>" arbitrary: s acc)
  case 0
  then have "\<not> s < T" using ceil_done[OF assms, of T s] by simp
  then show ?case using 0 by (subst planLoop.simps) (simp add: rangesFrom_def)
next
  case (Suc n)
  then have lt: "s < T" using ceil_done[OF assms, of T s] by auto
  let ?d = "min L (T - s)"
  have n: "n = nat \<lceil>(T - (s + ?d)) / L\<rceil>"
    using ceil_step[OF assms lt] Suc(2) by simp
  have ih: "planLoop L T (s + ?d) (acc @ [(s, ?d)])
            = Some ((acc @ [(s, ?d)]) @ rangesFrom L T (s + ?d) n)"
    using Suc(1)[OF n] n by simp
  have "rangesFrom L T (s + ?d) n = rangesFrom L T (s + L) n"
  proof (cases "T - s \<le> L")
    case True
    then have "T - (s + ?d) = 0" by simp
    then have "n = 0" using n by simp
    then show ?thesis by (simp add: rangesFrom_def)
  next
    case False
    then show ?thesis by simp
  qed
  with ih have "planLoop L T (s + ?d) (acc @ [(s, ?d)])
            = Some (acc @ rangesFrom L T s (Suc n))"
    by (simp add: rangesFrom_Suc)
  then show ?case using lt Suc(2) by (subst planLoop.simps) (simp add: Let_def)
qed

lemma sum_rangesFrom:
  assumes "0 < L"
  shows "s \<le> T \<Longrightarrow> sum_list (map snd (rangesFrom L T s (nat \<lceil>(T - s) / L\<rceil>))) = T - s"
proof (induction "nat \<lceil>(T - s) / L\<rceil>" arbitrary: s)
  case 0
  then have "\<not> s < T" using ceil_done[OF assms, of T s] by simp
  with 0 show ?case by (simp add: rangesFrom_def)
next
  case (Suc n)
  then have lt: "s < T" using ceil_done[OF assms, of T s] by auto
  let ?d = "min L (T - s)"
  have n: "n = nat \<lceil>(T - (s + ?d)) / L\<rceil>"
    using ceil_step[OF assms lt] Suc(2) by simp
  show ?case
  proof (cases "T - s \<le> L")
    case True
    then have "T - (s + ?d) = 0" by simp
    then have "n = 0" using n by simp
    then show ?thesis using True Suc(2)[symmetric] by (simp add: rangesFrom_Suc rangesFrom_def)
  next
    case False
    then have d: "?d = L" by simp
    have "s + L \<le> T" using False by simp
    from Suc(1)[OF n[unfolded d] this] n[unfolded d]
    have "sum_list (map snd (rangesFrom L T (s + L) n)) = T - (s + L)" by simp
    then show ?thesis using d Suc(2)[symmetric] by (simp add: rangesFrom_Suc)
  qed
qed

lemma planLoop_planSpec:
  assumes "0 < L"
  shows "planLoop L T 0 [] = Some (planSpec T L)"
  using planLoop_closed[OF assms, of T 0 "[]"] by (simp add: planSpec_def)

lemma planSpec_start_below:
  fixes L T :: real
  assumes "0 < L" "k < nat \<lceil>T / L\<rceil>"
  shows "real k * L < T"
proof -
  have "int k < \<lceil>T / L\<rceil>" using assms(2) by linarith
  then have "real k < T / L" by (simp add: less_ceiling_iff)
  then show ?thesis using assms(1) by (simp add: field_simps)
qed

text \<open>
  C4. For every total duration \<open>T \<ge> 0\<close> and every segment length \<open>L > 0\<close> the
  segmentation loop ends, and the ranges it computes are ordered and do not overlap: the
  starts are \<open>0, L, 2L, ...\<close>, each length is \<open>min(L, T - start)\<close> and positive, no
  range extends past \<open>T\<close>, a range ends no later than the next one starts, the lengths
  add up to \<open>T\<close>, there are \<open>ceil(T / L)\<close> ranges, and none when \<open>T = 0\<close>.
\<close>

theorem C4_segment_plan:
  assumes "0 \<le> T" and "0 < L"
  shows "\<exists>plan. planLoop L T 0 [] = Some plan
           \<and> map fst plan = map (\<lambda>k. real k * L) [0..<length plan]
           \<and> (\<forall>i<length plan. snd (plan ! i) = min L (T - fst (plan ! i))
                  \<and> 0 < snd (plan ! i)
                  \<and> fst (plan ! i) + snd (plan ! i) \<le> T)
           \<and> (\<forall>i. Suc i < length plan \<longrightarrow> fst (plan ! i) + snd (plan ! i) \<le> fst (plan ! Suc i))
           \<and> sum_list (map snd plan) = T
           \<and> int (length plan) = \<lceil>T / L\<rceil>
           \<and> (T = 0 \<longrightarrow> plan = [])"
proof -
  let ?n = "nat \<lceil>T / L\<rceil>"
  let ?plan = "planSpec T L"
  have len: "length ?plan = ?n" by (simp add: planSpec_def rangesFrom_def)
  have nth: "?plan ! i = (real i * L, min L (T - real i * L))" if "i < ?n" for i
    using that by (simp add: planSpec_def rangesFrom_def)
  have 1: "map fst ?plan = map (\<lambda>k. real k * L) [0..<length ?plan]"
    by (simp add: planSpec_def rangesFrom_def comp_def)
  have 2: "\<forall>i<length ?plan. snd (?plan ! i) = min L (T - fst (?plan ! i))
                  \<and> 0 < snd (?plan ! i)
                  \<and> fst (?plan ! i) + snd (?plan ! i) \<le> T"
  proof (intro allI impI)
    fix i assume "i < length ?plan"
    then have i: "i < ?n" using len by simp
    have "real i * L < T" using planSpec_start_below[OF assms(2) i] .
    then show "snd (?plan ! i) = min L (T - fst (?plan ! i))
                  \<and> 0 < snd (?plan ! i)
                  \<and> fst (?plan ! i) + snd (?plan ! i) \<le> T"
      using assms(2) by (simp add: nth[OF i])
  qed
  have 3: "\<forall>i. Suc i < length ?plan \<longrightarrow> fst (?plan ! i) + snd (?plan ! i) \<le> fst (?plan ! Suc i)"
  proof (intro allI impI)
    fix i assume a: "Suc i < length ?plan"
    then have "i < ?n" "Suc i < ?n" using len by simp_all
    then show "fst (?plan ! i) + snd (?plan ! i) \<le> fst (?plan ! Suc i)"
      by (simp add: nth algebra_simps)
  qed
  have 4: "sum_list (map snd ?plan) = T"
    using sum_rangesFrom[OF assms(2), of 0 T] assms(1) by (simp add: planSpec_def)
  have "0 \<le> T / L" using assms by simp
  then have "0 \<le> \<lceil>T / L\<rceil>" by (simp add: le_ceiling_iff)
  then have 5: "int (length ?plan) = \<lceil>T / L\<rceil>" using len by simp
  have 6: "T = 0 \<longrightarrow> ?plan = []" by (simp add: planSpec_def rangesFrom_def)
  from planLoop_planSpec[OF assms(2), of T] 1 2 3 4 5 6 show ?thesis by blast
qed

theorem C4_segment_plan_witness:
  "(0::real) \<le> 1500 \<and> (0::real) < 600
   \<and> planLoop 600 1500 0 [] = Some [(0, 600), (600, 600), (1200, 300)]
   \<and> (\<exists>plan. planLoop 600 1500 0 [] = Some plan
           \<and> map fst plan = map (\<lambda>k. real k * 600) [0..<length plan]
           \<and> sum_list (map snd plan) = 1500
           \<and> int (length plan) = 3)"
proof -
  have "planLoop 600 1500 0 [] = Some [(0, 600), (600, 600), (1200, 300)]"
    by (simp add: planLoop.simps Let_def)
  moreover have "\<exists>plan. planLoop 600 1500 0 [] = Some plan
           \<and> map fst plan = map (\<lambda>k. real k * 600) [0..<length plan]
           \<and> sum_list (map snd plan) = 1500
           \<and> int (length plan) = 3"
    using C4_segment_plan[of 1500 600] by auto
  ultimately show ?thesis by simp
qed

section \<open>Single calls\<close>

lemma emit_fields [simp]:
  "trace (emit ev w) = trace w @ [ev]"
  "files (emit ev w) = files w"
  "console (emit ev w) = console w"
  by (simp_all add: emit_def)

lemma extractAudio_Inr:
  assumes "extractAudio e i out w = (Inr x, w')"
  shows "\<exists>n. trace w' = trace w @ [ExtractAudio i out (Inr n)]
              \<and> files w' = (files w)(out \<mapsto> n) \<and> console w' = console w"
  using assms by (auto simp: extractAudio_def Let_def split: sum.splits)

lemma extractAudio_Inl:
  assumes "extractAudio e i out w = (Inl err, w')"
  shows "trace w' = trace w @ [ExtractAudio i out (Inl err)] \<and> console w' = console w
         \<and> dom (files w') \<subseteq> dom (files w) \<union> {out}"
  using assms
  by (auto simp: extractAudio_def failedRun_def Let_def split: sum.splits option.splits if_splits)

lemma getDuration_Inr:
  assumes "getDuration e p w = (Inr d, w')"
  shows "\<exists>d0. d = (case d0 of None \<Rightarrow> 0 | Some x \<Rightarrow> x)
               \<and> trace w' = trace w @ [Probe p (Inr d0)]
               \<and> files w' = files w \<and> console w' = console w"
  using assms by (auto simp: getDuration_def Let_def split: sum.splits)

lemma getDuration_Inl:
  assumes "getDuration e p w = (Inl err, w')"
  shows "trace w' = trace w @ [Probe p (Inl err)]
         \<and> files w' = files w \<and> console w' = console w"
  using assms by (auto simp: getDuration_def Let_def split: sum.splits)

lemma extractSegment_Inr:
  assumes "extractSegment e i out s d w = (Inr x, w')"
  shows "\<exists>n. trace w' = trace w @ [ExtractSegment i out s d (Inr n)]
              \<and> files w' = (files w)(out \<mapsto> n) \<and> console w' = console w"
  using assms by (auto simp: extractSegment_def Let_def split: sum.splits)

lemma extractSegment_Inl:
  assumes "extractSegment e i out s d w = (Inl err, w')"
  shows "trace w' = trace w @ [ExtractSegment i out s d (Inl err)] \<and> console w' = console w
         \<and> dom (files w') \<subseteq> dom (files w) \<union> {out}"
  using assms
  by (auto simp: extractSegment_def failedRun_def Let_def split: sum.splits option.splits if_splits)

lemma fsStat_world:
  assumes "fsStat e p w = (r, w')"
  shows "trace w' = trace w @ [Stat p r] \<and> files w' = files w \<and> console w' = console w"
  using assms by (auto simp: fsStat_def Let_def)

lemma transcribeFile_world:
  assumes "transcribeFile e k p w = (r, w')"
  shows "files w' = files w \<and> console w' = console w"
  using assms
  by (auto simp: transcribeFile_def fsStat_def Let_def split: sum.splits option.splits if_splits)

lemma transcribeFile_Inr:
  assumes "transcribeFile e k p w = (Inr t, w')"
  shows "\<exists>n. n \<le> WHISPER_MAX_SIZE \<and> trace w' = trace w @ [Stat p (Inr n), ApiCreate p (Inr t)]"
  using assms
  by (auto simp: transcribeFile_def fsStat_def Let_def split: sum.splits option.splits if_splits)

lemma transcribeFile_Inl:
  assumes "transcribeFile e k p w = (Inl err, w')"
  shows "(\<exists>s. trace w' = trace w @ [Stat p s])
         \<or> (\<exists>n. trace w' = trace w @ [Stat p (Inr n), ApiCreate p (Inl err)])"
  using assms
  by (auto simp: transcribeFile_def fsStat_def Let_def split: sum.splits option.splits if_splits)

lemma fsUnlink_world:
  assumes "fsUnlink e p w = (r, w')"
  shows "trace w' = trace w @ [Unlink p r] \<and> console w' = console w
         \<and> (r = None \<longrightarrow> files w' = (files w)(p := None))
         \<and> (r \<noteq> None \<longrightarrow> files w' = files w)"
  using assms by (auto simp: fsUnlink_def split: if_splits)

section \<open>The loops\<close>

lemma SEGMENT_DURATION_SEC_pos: "0 < SEGMENT_DURATION_SEC"
  by (simp add: SEGMENT_DURATION_SEC_def)

lemma planLoop_step:
  assumes "0 < L" "s < T"
  shows "planLoop L T s [] = map_option ((#) (s, min L (T - s))) (planLoop L T (s + min L (T - s)) [])"
proof -
  have "planLoop L T s [] = planLoop L T (s + min L (T - s)) [(s, min L (T - s))]"
    using assms(2) by (subst planLoop.simps) (simp add: Let_def)
  then show ?thesis
    by (simp add: planLoop_closed[OF assms(1)])
qed

lemma extractSegments_ok:
  "extractSegments e cfg job audio T s segs w = (Inr u, segs', w') \<Longrightarrow>
   \<exists>plan sizes. planLoop SEGMENT_DURATION_SEC T s [] = Some plan \<and> length sizes = length plan
      \<and> segs' = segs @ map (segPathOf e cfg job) [length segs..<length segs + length plan]
      \<and> trace w' = trace w @ segEvents audio
            (map (segPathOf e cfg job) [length segs..<length segs + length plan]) plan sizes"
proof (induction e cfg job audio T s segs w rule: extractSegments.induct)
  case (1 e cfg jobId audioPath duration start segments w)
  let ?d = "min SEGMENT_DURATION_SEC (duration - start)"
  let ?p = "segPathOf e cfg jobId (length segments)"
  show ?case
  proof (cases "start < duration")
    case False
    have "extractSegments e cfg jobId audioPath duration start segments w = (Inr (), segments, w)"
      using False by (subst extractSegments.simps) simp
    with 1(2) have "segs' = segments" "w' = w" by simp_all
    moreover have "planLoop SEGMENT_DURATION_SEC duration start [] = Some []"
      using False by (subst planLoop.simps) simp
    ultimately show ?thesis by (intro exI[of _ "[]"]) (simp add: segEvents_def)
  next
    case True
    obtain r1 w1 where ex: "extractSegment e audioPath ?p start ?d w = (r1, w1)" by force
    have unf: "extractSegments e cfg jobId audioPath duration start segments w =
      (case r1 of Inl err \<Rightarrow> (Inl err, segments, w1)
       | Inr x \<Rightarrow> extractSegments e cfg jobId audioPath duration (start + ?d) (segments @ [?p]) w1)"
      using True ex by (subst extractSegments.simps) (simp add: Let_def split: sum.splits)
    with 1(2) obtain b where r1: "r1 = Inr b"
      and rec: "extractSegments e cfg jobId audioPath duration (start + ?d) (segments @ [?p]) w1
                = (Inr u, segs', w')"
      by (cases r1) auto
    from 1(1)[OF True refl refl ex[symmetric] r1 rec] obtain plan sizes where
      ih: "planLoop SEGMENT_DURATION_SEC duration (start + ?d) [] = Some plan"
          "length sizes = length plan"
          "segs' = (segments @ [?p]) @ map (segPathOf e cfg jobId)
                     [length (segments @ [?p])..<length (segments @ [?p]) + length plan]"
          "trace w' = trace w1 @ segEvents audioPath (map (segPathOf e cfg jobId)
                     [length (segments @ [?p])..<length (segments @ [?p]) + length plan]) plan sizes"
      by blast
    from extractSegment_Inr[OF ex[unfolded r1]] obtain n where
      n: "trace w1 = trace w @ [ExtractSegment audioPath ?p start ?d (Inr n)]" by blast
    have pl: "planLoop SEGMENT_DURATION_SEC duration start [] = Some ((start, ?d) # plan)"
      using planLoop_step[OF SEGMENT_DURATION_SEC_pos True] ih(1) by simp
    have upt: "[length segments..<length segments + length ((start, ?d) # plan)]
               = length segments # [Suc (length segments)..<Suc (length segments) + length plan]"
      by (subst upt_rec) simp
    show ?thesis
      apply (rule exI[of _ "(start, ?d) # plan"])
      apply (rule exI[of _ "n # sizes"])
      apply (simp only: upt)
      using pl ih n by (simp add: segEvents_def)
  qed
qed

lemma extractSegments_files:
  "extractSegments e cfg job audio T s segs w = (r, segs', w') \<Longrightarrow>
   console w' = console w \<and> length segs \<le> length segs' \<and> take (length segs) segs' = segs
   \<and> dom (files w') \<subseteq> dom (files w) \<union> set (drop (length segs) segs')
        \<union> (case r of Inl err \<Rightarrow> {segPathOf e cfg job (length segs')} | Inr u \<Rightarrow> {})"
proof (induction e cfg job audio T s segs w rule: extractSegments.induct)
  case (1 e cfg jobId audioPath duration start segments w)
  let ?d = "min SEGMENT_DURATION_SEC (duration - start)"
  let ?p = "segPathOf e cfg jobId (length segments)"
  show ?case
  proof (cases "start < duration")
    case False
    have "extractSegments e cfg jobId audioPath duration start segments w = (Inr (), segments, w)"
      using False by (subst extractSegments.simps) simp
    with 1(2) show ?thesis by auto
  next
    case True
    obtain r1 w1 where ex: "extractSegment e audioPath ?p start ?d w = (r1, w1)" by force
    have unf: "extractSegments e cfg jobId audioPath duration start segments w =
      (case r1 of Inl err \<Rightarrow> (Inl err, segments, w1)
       | Inr x \<Rightarrow> extractSegments e cfg jobId audioPath duration (start + ?d) (segments @ [?p]) w1)"
      using True ex by (subst extractSegments.simps) (simp add: Let_def split: sum.splits)
    show ?thesis
    proof (cases r1)
      case (Inl err)
      with unf 1(2) have "r = Inl err" "segs' = segments" "w' = w1" by simp_all
      with extractSegment_Inl[OF ex[unfolded Inl]] show ?thesis by auto
    next
      case (Inr b)
      with unf 1(2) have
        rec: "extractSegments e cfg jobId audioPath duration (start + ?d) (segments @ [?p]) w1
              = (r, segs', w')" by simp
      from 1(1)[OF True refl refl ex[symmetric] Inr rec] have
        ih: "console w' = console w1" "length (segments @ [?p]) \<le> length segs'"
            "take (length (segments @ [?p])) segs' = segments @ [?p]"
            "dom (files w') \<subseteq> dom (files w1) \<union> set (drop (length (segments @ [?p])) segs')
               \<union> (case r of Inl err \<Rightarrow> {segPathOf e cfg jobId (length segs')} | Inr u \<Rightarrow> {})"
        by blast+
      from extractSegment_Inr[OF ex[unfolded Inr]] obtain n where
        n: "files w1 = (files w)(?p \<mapsto> n)" "console w1 = console w" by blast
      have sp: "segs' = (segments @ [?p]) @ drop (Suc (length segments)) segs'"
        using ih(3) append_take_drop_id[of "Suc (length segments)" segs'] by simp
      have tk: "take (length segments) segs' = segments"
        by (subst sp) simp
      have dr: "drop (length segments) segs' = ?p # drop (Suc (length segments)) segs'"
        by (subst sp) simp
      have "dom (files w1) = insert ?p (dom (files w))" using n(1) by simp
      with ih(4) dr have "dom (files w') \<subseteq> dom (files w) \<union> set (drop (length segments) segs')
               \<union> (case r of Inl err \<Rightarrow> {segPathOf e cfg jobId (length segs')} | Inr u \<Rightarrow> {})"
        by auto
      then show ?thesis using ih(1,2) n(2) tk by simp
    qed
  qed
qed

lemma transcribeAll_ok:
  "transcribeAll e k segs texts w = (Inr texts', w') \<Longrightarrow>
   \<exists>sizes results. length sizes = length segs \<and> length results = length segs
      \<and> texts' = texts @ map segText results
      \<and> trace w' = trace w @ apiEvents segs sizes results"
proof (induction segs arbitrary: texts w)
  case Nil
  then show ?case by (simp add: apiEvents_def)
next
  case (Cons p rest)
  obtain r1 w1 where tf: "transcribeFile e k p w = (r1, w1)" by force
  with Cons.prems obtain t where r1: "r1 = Inr t"
    and rec: "transcribeAll e k rest (texts @ [segText t]) w1 = (Inr texts', w')"
    by (cases r1) auto
  from Cons.IH[OF rec] obtain sizes results where
    ih: "length sizes = length rest" "length results = length rest"
        "texts' = (texts @ [segText t]) @ map segText results"
        "trace w' = trace w1 @ apiEvents rest sizes results" by blast
  from transcribeFile_Inr[OF tf[unfolded r1]] obtain n where
    n: "trace w1 = trace w @ [Stat p (Inr n), ApiCreate p (Inr t)]" by blast
  show ?case
    apply (rule exI[of _ "n # sizes"])
    apply (rule exI[of _ "t # results"])
    using ih n by (simp add: apiEvents_def)
qed

lemma transcribeAll_world:
  "transcribeAll e k segs texts w = (r, w') \<Longrightarrow> files w' = files w \<and> console w' = console w"
proof (induction segs arbitrary: texts w)
  case Nil
  then show ?case by simp
next
  case (Cons p rest)
  obtain r1 w1 where tf: "transcribeFile e k p w = (r1, w1)" by force
  show ?case
  proof (cases r1)
    case (Inl err)
    with Cons.prems tf have "w' = w1" by simp
    with transcribeFile_world[OF tf] show ?thesis by simp
  next
    case (Inr t)
    with Cons.prems tf have "transcribeAll e k rest (texts @ [segText t]) w1 = (r, w')" by simp
    from Cons.IH[OF this] transcribeFile_world[OF tf] show ?thesis by simp
  qed
qed

lemma transcribeAll_stops:
  assumes "transcribeAll e k xs texts w = (Inr texts1, w1)"
    and "transcribeFile e k y w1 = (Inl err, w2)"
  shows "transcribeAll e k (xs @ y # zs) texts w = (Inl err, w2)"
  using assms
proof (induction xs arbitrary: texts w)
  case Nil
  then show ?case by simp
next
  case (Cons p rest)
  obtain r1 wa where tf: "transcribeFile e k p w = (r1, wa)" by force
  with Cons.prems(1) obtain t where r1: "r1 = Inr t"
    and rec: "transcribeAll e k rest (texts @ [segText t]) wa = (Inr texts1, w1)"
    by (cases r1) auto
  from Cons.IH[OF rec Cons.prems(2)] tf r1 show ?case by simp
qed

lemma unlinkAll_trace:
  "\<exists>outcomes. length outcomes = length ps
     \<and> trace (unlinkAll e ps w) = trace w @ unlinkEvents ps outcomes"
proof (induction ps arbitrary: w)
  case Nil
  then show ?case by (simp add: unlinkEvents_def)
next
  case (Cons p ps)
  obtain r w1 where u: "fsUnlink e p w = (r, w1)" by force
  from Cons[of w1] obtain outcomes where
    ih: "length outcomes = length ps" "trace (unlinkAll e ps w1) = trace w1 @ unlinkEvents ps outcomes"
    by blast
  show ?case
    apply (rule exI[of _ "r # outcomes"])
    using ih u fsUnlink_world[OF u] by (simp add: unlinkEvents_def)
qed

lemma unlinkAll_console: "console (unlinkAll e ps w) = console w"
proof (induction ps arbitrary: w)
  case Nil
  then show ?case by simp
next
  case (Cons p ps)
  obtain r w1 where u: "fsUnlink e p w = (r, w1)" by force
  with Cons[of w1] fsUnlink_world[OF u] show ?case by simp
qed

lemma unlinkAll_prefix: "\<exists>evs. trace (unlinkAll e ps w) = trace w @ evs"
  using unlinkAll_trace[of ps e w] by blast

lemma unlinkAll_files_subset: "dom (files (unlinkAll e ps w)) \<subseteq> dom (files w)"
proof (induction ps arbitrary: w)
  case Nil
  then show ?case by simp
next
  case (Cons p ps)
  obtain r w1 where u: "fsUnlink e p w = (r, w1)" by force
  have "dom (files w1) \<subseteq> dom (files w)"
    using fsUnlink_world[OF u] by (cases r) auto
  with Cons[of w1] u show ?case by auto
qed

lemma unlinkAll_removed:
  "p \<in> set ps \<Longrightarrow>
   p \<notin> dom (files (unlinkAll e ps w))
   \<or> (\<exists>err. Unlink p (Some err) \<in> set (drop (length (trace w)) (trace (unlinkAll e ps w))))"
proof (induction ps arbitrary: w)
  case Nil
  then show ?case by simp
next
  case (Cons q ps)
  obtain r w1 where u: "fsUnlink e q w = (r, w1)" by force
  note fw = fsUnlink_world[OF u]
  obtain evs where evs: "trace (unlinkAll e ps w1) = trace w1 @ evs"
    using unlinkAll_prefix by blast
  have tr: "drop (length (trace w)) (trace (unlinkAll e (q # ps) w)) = Unlink q r # evs"
    using u fw evs by simp
  have dr: "drop (length (trace w1)) (trace (unlinkAll e ps w1)) = evs"
    using evs by simp
  show ?case
  proof (cases "p \<in> set ps")
    case True
    from Cons.IH[OF True, of w1] show ?thesis
      using u tr dr by auto
  next
    case False
    with Cons.prems have pq: "p = q" by simp
    show ?thesis
    proof (cases r)
      case None
      then have "q \<notin> dom (files w1)" using fw by auto
      then have "q \<notin> dom (files (unlinkAll e ps w1))"
        using unlinkAll_files_subset[of e ps w1] by auto
      then show ?thesis using u pq by simp
    next
      case (Some err)
      then show ?thesis using tr pq by auto
    qed
  qed
qed

lemma unlinkAll_append: "unlinkAll e (ps @ qs) w = unlinkAll e qs (unlinkAll e ps w)"
  by (induction ps arbitrary: w) simp_all

lemma unlinkAll_keeps_None: "files w p = None \<Longrightarrow> files (unlinkAll e ps w) p = None"
  using unlinkAll_files_subset[of e ps w] by (auto simp: domIff)

lemma fsUnlink_gone:
  assumes "fsUnlink e p w = (r, w1)"
  shows "files w1 p = None \<or> fsDenied e w p"
  using assms by (auto simp: fsUnlink_def split: if_splits)

text \<open>
  After the \<open>finally\<close> loop the path at position \<open>i\<close> is gone, unless the file system
  denied its deletion when its turn came.
\<close>

lemma unlinkAll_nth:
  assumes "i < length ps"
  shows "files (unlinkAll e ps w) (ps ! i) = None
         \<or> fsDenied e (unlinkAll e (take i ps) w) (ps ! i)"
proof -
  let ?wi = "unlinkAll e (take i ps) w"
  obtain r w1 where u: "fsUnlink e (ps ! i) ?wi = (r, w1)" by force
  have "ps = take i ps @ ps ! i # drop (Suc i) ps"
    using assms by (rule id_take_nth_drop)
  then have "unlinkAll e ps w = unlinkAll e (ps ! i # drop (Suc i) ps) ?wi"
    using unlinkAll_append[of e "take i ps" "ps ! i # drop (Suc i) ps" w] by simp
  then have e: "unlinkAll e ps w = unlinkAll e (drop (Suc i) ps) w1"
    using u by simp
  from fsUnlink_gone[OF u] show ?thesis
  proof
    assume "files w1 (ps ! i) = None"
    then show ?thesis unfolding e by (simp add: unlinkAll_keeps_None)
  next
    assume "fsDenied e ?wi (ps ! i)"
    then show ?thesis by simp
  qed
qed

lemma unlinkAll_all_gone:
  assumes "\<forall>w0 p0. \<not> fsDenied e w0 p0" and "p \<in> set ps"
  shows "files (unlinkAll e ps w) p = None"
proof -
  from assms(2) obtain i where "i < length ps" "ps ! i = p" by (auto simp: in_set_conv_nth)
  with unlinkAll_nth[of i ps e w] assms(1) show ?thesis by auto
qed

section \<open>The remote adapter\<close>

lemma apiCalls_append: "apiCalls (xs @ ys) = apiCalls xs @ apiCalls ys"
  by (induction xs rule: apiCalls.induct) simp_all

lemma statCalls_append: "statCalls (xs @ ys) = statCalls xs @ statCalls ys"
  by (induction xs rule: statCalls.induct) simp_all

lemma mediaCalls_append: "mediaCalls (xs @ ys) = mediaCalls xs @ mediaCalls ys"
  by (induction xs rule: mediaCalls.induct) simp_all

lemma spawnCalls_append: "spawnCalls (xs @ ys) = spawnCalls xs @ spawnCalls ys"
  by (induction xs rule: spawnCalls.induct) simp_all

lemma transcribeFile_too_large:
  assumes "files w filePath = Some n" and "\<not> fsDenied e w filePath" and "WHISPER_MAX_SIZE < n"
  shows "transcribeFile e openai filePath w
         = (Inl (segmentTooLarge n), emit (Stat filePath (Inr n)) w)"
  using assms by (simp add: transcribeFile_def fsStat_def Let_def)

lemma transcribeFile_within_limit:
  assumes "files w filePath = Some n" and "\<not> fsDenied e w filePath" and "n \<le> WHISPER_MAX_SIZE"
  shows "transcribeFile e openai filePath w
         = (whisperCreate e (emit (Stat filePath (Inr n)) w) openai filePath,
            emit (ApiCreate filePath
                    (whisperCreate e (emit (Stat filePath (Inr n)) w) openai filePath))
              (emit (Stat filePath (Inr n)) w))"
  using assms by (simp add: transcribeFile_def fsStat_def Let_def)

text \<open>
  C6. \<open>transcribeFile\<close> on a file whose size \<open>stat\<close> reports as \<open>n\<close>: when \<open>n\<close>
  exceeds the 25 MB limit it throws the segment-too-large error after the \<open>stat\<close> alone,
  with no request to the service, and the loop over the segments stops there with that
  error, nothing being shrunk or retried; when \<open>n\<close> is within the limit the service is
  called and its answer is the result. So the local segment-too-large failure without a
  request happens if and only if the size exceeds the limit.
\<close>

theorem C6_segment_too_large:
  assumes "files w filePath = Some n" and "\<not> fsDenied e w filePath"
  shows "(WHISPER_MAX_SIZE < n \<longrightarrow>
            transcribeFile e openai filePath w
              = (Inl (segmentTooLarge n), emit (Stat filePath (Inr n)) w)
          \<and> transcribeAll e openai (filePath # rest) texts w
              = (Inl (segmentTooLarge n), emit (Stat filePath (Inr n)) w))
       \<and> (n \<le> WHISPER_MAX_SIZE \<longrightarrow>
            transcribeFile e openai filePath w
              = (whisperCreate e (emit (Stat filePath (Inr n)) w) openai filePath,
                 emit (ApiCreate filePath
                         (whisperCreate e (emit (Stat filePath (Inr n)) w) openai filePath))
                   (emit (Stat filePath (Inr n)) w)))
       \<and> ((fst (transcribeFile e openai filePath w) = Inl (segmentTooLarge n)
            \<and> apiCalls (trace (snd (transcribeFile e openai filePath w))) = apiCalls (trace w))
           \<longleftrightarrow> WHISPER_MAX_SIZE < n)"
proof (cases "WHISPER_MAX_SIZE < n")
  case True
  note tl = transcribeFile_too_large[OF assms True, of openai]
  have "transcribeAll e openai (filePath # rest) texts w
          = (Inl (segmentTooLarge n), emit (Stat filePath (Inr n)) w)"
    by (simp add: tl)
  with tl True show ?thesis by (simp add: apiCalls_append)
next
  case False
  then have le: "n \<le> WHISPER_MAX_SIZE" by simp
  note wl = transcribeFile_within_limit[OF assms le, of openai]
  have "apiCalls (trace (snd (transcribeFile e openai filePath w))) \<noteq> apiCalls (trace w)"
    by (simp add: wl apiCalls_append)
  with wl False le show ?thesis by simp
qed

theorem C6_segment_too_large_witness:
  "files demoWorld (js ''u.mp4'') = Some 30000000
   \<and> \<not> fsDenied demoEnv demoWorld (js ''u.mp4'')
   \<and> WHISPER_MAX_SIZE < 30000000
   \<and> transcribeFile demoEnv (js ''k'') (js ''u.mp4'') demoWorld
       = (Inl (segmentTooLarge 30000000), emit (Stat (js ''u.mp4'') (Inr 30000000)) demoWorld)
   \<and> message (segmentTooLarge 30000000)
       = Some (js ''Segment too large (29 MB). Try shorter segments.'')"
proof -
  have h1: "files demoWorld (js ''u.mp4'') = Some 30000000"
    by (simp add: demoWorld_def)
  have h2: "\<not> fsDenied demoEnv demoWorld (js ''u.mp4'')"
    by (simp add: demoEnv_def)
  have h3: "WHISPER_MAX_SIZE < 30000000"
    by (simp add: WHISPER_MAX_SIZE_def)
  have m: "message (segmentTooLarge 30000000)
       = Some (js ''Segment too large (29 MB). Try shorter segments.'')"
    by (simp add: segmentTooLarge_def newError_def roundMB_def js_def showNat.simps)
  from C6_segment_too_large[OF h1 h2, of "js ''k''" "[]" "[]"] h1 h2 h3 m show ?thesis
    by simp
qed

section \<open>The segmented path\<close>

lemma tryBlock_Inr:
  assumes "tryBlock e cfg k filePath jobId audio w = (Inr text, segs, w4)"
  shows "\<exists>a w1 d w2 u w3 texts.
           extractAudio e filePath audio w = (Inr a, w1)
         \<and> getDuration e audio w1 = (Inr d, w2)
         \<and> extractSegments e cfg jobId audio d 0 [] w2 = (Inr u, segs, w3)
         \<and> transcribeAll e k segs [] w3 = (Inr texts, w4)
         \<and> text = assemble texts"
  using assms by (auto simp: tryBlock_def split: prod.splits sum.splits)

lemma tryBlock_files:
  assumes "tryBlock e cfg k filePath jobId audio w = (r, segs, w4)"
  shows "console w4 = console w
         \<and> dom (files w4) \<subseteq> dom (files w) \<union> set (audio # segs)
              \<union> {segPathOf e cfg jobId (length segs)}"
proof -
  obtain ra w1 where ea: "extractAudio e filePath audio w = (ra, w1)" by force
  show ?thesis
  proof (cases ra)
    case (Inl err)
    with assms ea have "w4 = w1" by (simp add: tryBlock_def)
    with extractAudio_Inl[OF ea[unfolded Inl]] show ?thesis by auto
  next
    case (Inr a)
    from extractAudio_Inr[OF ea[unfolded Inr]] have
      f1: "console w1 = console w" "dom (files w1) \<subseteq> dom (files w) \<union> {audio}" by auto
    obtain rd w2 where gd: "getDuration e audio w1 = (rd, w2)" by force
    show ?thesis
    proof (cases rd)
      case (Inl err)
      with assms ea Inr gd have "w4 = w2" by (simp add: tryBlock_def)
      with getDuration_Inl[OF gd[unfolded Inl]] f1 show ?thesis by auto
    next
      case d: (Inr d)
      from getDuration_Inr[OF gd[unfolded d]] have
        f2: "console w2 = console w1" "files w2 = files w1" by auto
      obtain rs segs' w3 where es:
        "extractSegments e cfg jobId audio d 0 [] w2 = (rs, segs', w3)"
        by (metis prod_cases3)
      from extractSegments_files[OF es] have
        f3: "console w3 = console w2"
            "dom (files w3) \<subseteq> dom (files w2) \<union> set segs' \<union> {segPathOf e cfg jobId (length segs')}"
        by (auto split: sum.splits)
      show ?thesis
      proof (cases rs)
        case (Inl err)
        with assms ea Inr gd d es have "w4 = w3" "segs = segs'" by (simp_all add: tryBlock_def)
        moreover have "console w3 = console w" using f1 f2 f3 by simp
        moreover from f3(2) have
          "dom (files w3) \<subseteq> dom (files w1) \<union> set segs' \<union> {segPathOf e cfg jobId (length segs')}"
          unfolding f2 .
        with f1(2) have
          "dom (files w3) \<subseteq> dom (files w) \<union> set (audio # segs') \<union> {segPathOf e cfg jobId (length segs')}"
          unfolding list.set by blast
        ultimately show ?thesis by simp
      next
        case u: (Inr u)
        obtain rt wt where ta: "transcribeAll e k segs' [] w3 = (rt, wt)" by force
        with assms ea Inr gd d es u have "w4 = wt" "segs = segs'"
          by (auto simp: tryBlock_def split: sum.splits)
        moreover from transcribeAll_world[OF ta] have
          wt: "files wt = files w3" "console wt = console w3" by simp_all
        moreover have "console w3 = console w" using f1 f2 f3 by simp
        moreover from f3(2) have
          "dom (files w3) \<subseteq> dom (files w1) \<union> set segs' \<union> {segPathOf e cfg jobId (length segs')}"
          unfolding f2 .
        with f1(2) have
          "dom (files w3) \<subseteq> dom (files w) \<union> set (audio # segs') \<union> {segPathOf e cfg jobId (length segs')}"
          unfolding list.set by blast
        ultimately show ?thesis by simp
      qed
    qed
  qed
qed

lemma transcribeLargeFile_ok:
  assumes "transcribeLargeFile e cfg openai filePath w = (Inr text, w')"
  shows "\<exists>audioSize d0 plan sizes statSizes results outcomes.
      planLoop SEGMENT_DURATION_SEC (case d0 of None \<Rightarrow> 0 | Some x \<Rightarrow> x) 0 [] = Some plan
    \<and> length sizes = length plan \<and> length statSizes = length plan
    \<and> length results = length plan \<and> length outcomes = Suc (length plan)
    \<and> trace w' = trace w
        @ [ExtractAudio filePath (audioPathOf e cfg filePath) (Inr audioSize),
           Probe (audioPathOf e cfg filePath) (Inr d0)]
        @ segEvents (audioPathOf e cfg filePath)
            (map (segPathOf e cfg (jobIdOf e filePath)) [0..<length plan]) plan sizes
        @ apiEvents (map (segPathOf e cfg (jobIdOf e filePath)) [0..<length plan])
            statSizes results
        @ unlinkEvents (audioPathOf e cfg filePath
              # map (segPathOf e cfg (jobIdOf e filePath)) [0..<length plan]) outcomes
    \<and> text = assemble (map segText results)"
proof -
  let ?a = "audioPathOf e cfg filePath"
  let ?j = "jobIdOf e filePath"
  obtain segs w4 where tb: "tryBlock e cfg openai filePath ?j ?a w = (Inr text, segs, w4)"
    and w': "w' = unlinkAll e (?a # segs) w4"
    using assms by (auto simp: transcribeLargeFile_def Let_def split: prod.splits)
  from tryBlock_Inr[OF tb] obtain a w1 d w2 u w3 texts where
    s1: "extractAudio e filePath ?a w = (Inr a, w1)"
    and s2: "getDuration e ?a w1 = (Inr d, w2)"
    and s3: "extractSegments e cfg ?j ?a d 0 [] w2 = (Inr u, segs, w3)"
    and s4: "transcribeAll e openai segs [] w3 = (Inr texts, w4)"
    and s5: "text = assemble texts" by blast
  from extractAudio_Inr[OF s1] obtain audioSize where
    t1: "trace w1 = trace w @ [ExtractAudio filePath ?a (Inr audioSize)]" by blast
  from getDuration_Inr[OF s2] obtain d0 where
    d0: "d = (case d0 of None \<Rightarrow> 0 | Some x \<Rightarrow> x)"
    and t2: "trace w2 = trace w1 @ [Probe ?a (Inr d0)]" by blast
  from extractSegments_ok[OF s3] obtain plan sizes where
    pl: "planLoop SEGMENT_DURATION_SEC d 0 [] = Some plan"
    and ls: "length sizes = length plan"
    and sg: "segs = map (segPathOf e cfg ?j) [0..<length plan]"
    and t3: "trace w3 = trace w2 @ segEvents ?a (map (segPathOf e cfg ?j) [0..<length plan]) plan sizes"
    by auto
  from transcribeAll_ok[OF s4] obtain statSizes results where
    l4: "length statSizes = length segs" "length results = length segs"
    and tx: "texts = map segText results"
    and t4: "trace w4 = trace w3 @ apiEvents segs statSizes results" by auto
  from unlinkAll_trace[of "?a # segs" e w4] obtain outcomes where
    l5: "length outcomes = length (?a # segs)"
    and t5: "trace w' = trace w4 @ unlinkEvents (?a # segs) outcomes"
    using w' by blast
  have lseg: "length segs = length plan" using sg by simp
  show ?thesis
    apply (rule exI[of _ audioSize])
    apply (rule exI[of _ d0])
    apply (rule exI[of _ plan])
    apply (rule exI[of _ sizes])
    apply (rule exI[of _ statSizes])
    apply (rule exI[of _ results])
    apply (rule exI[of _ outcomes])
    using pl ls l4 l5 lseg t1 t2 t3 t4 t5 s5 tx d0 sg by simp
qed

section \<open>The handler\<close>

lemma respond_fields [simp]: "statusCode (respond c b) = c" "body (respond c b) = b"
  by (simp_all add: respond_def)

lemma errorResponse_shape: "\<exists>m. body (errorResponse err) = ErrorBody m"
  by (simp add: errorResponse_def)

lemma handlerFinally_world:
  "\<exists>final. trace (handlerFinally e (Some f) w) = trace w @ final
     \<and> (final = [] \<or> (\<exists>r. final = [Unlink (uploadPath f) r]))"
proof (cases "uploadPath f = []")
  case True
  then show ?thesis by (simp add: handlerFinally_def)
next
  case False
  obtain r w1 where u: "fsUnlink e (uploadPath f) w = (r, w1)" by force
  from fsUnlink_world[OF u] have "trace w1 = trace w @ [Unlink (uploadPath f) r]" by simp
  then have "trace (handlerFinally e (Some f) w) = trace w @ [Unlink (uploadPath f) r]"
    using False u by (cases r) (simp_all add: handlerFinally_def)
  then show ?thesis by blast
qed

lemma handler_large_text:
  assumes "TRANSCRIPTION_MODE cfg \<noteq> js ''local''" and "WHISPER_MAX_SIZE < uploadSize f"
    and "handler e cfg (Some f) w = (resp, w')" and "body resp = TextBody text"
  shows "\<exists>key w1. OPENAI_API_KEY cfg = Some key \<and> key \<noteq> []
           \<and> transcribeLargeFile e cfg key (uploadPath f) w = (Inr text, w1)
           \<and> w' = handlerFinally e (Some f) w1 \<and> resp = respond 200 (TextBody text)"
proof -
  obtain r w1 where ht: "handlerTry e cfg (Some f) w = (r, w1)" by force
  have fin: "w' = handlerFinally e (Some f) (snd (handlerCatch (r, w1)))"
    and resp: "resp = fst (handlerCatch (r, w1))"
    using assms(3) ht by (auto simp: handler_def split: prod.splits)
  have r: "r = Inr resp"
  proof (cases r)
    case (Inl err)
    then have "resp = errorResponse err" using resp by (simp add: handlerCatch_def)
    with errorResponse_shape[of err] assms(4) show ?thesis by auto
  next
    case (Inr x)
    then show ?thesis using resp by (simp add: handlerCatch_def)
  qed
  then have w1: "w' = handlerFinally e (Some f) w1" using fin by (simp add: handlerCatch_def)
  have key: "orElse (OPENAI_API_KEY cfg) [] \<noteq> []"
  proof
    assume "orElse (OPENAI_API_KEY cfg) [] = []"
    then have "\<exists>m. resp = respond 500 (ErrorBody m)"
      using ht r assms(1) by (auto simp: handlerTry_def)
    with assms(4) show False by auto
  qed
  then obtain k where k: "OPENAI_API_KEY cfg = Some k" "k \<noteq> []" "orElse (OPENAI_API_KEY cfg) [] = k"
    by (cases "OPENAI_API_KEY cfg") (auto simp: orElse_def split: if_splits)
  have "transcribeLargeFile e cfg k (uploadPath f) w = (Inr text, w1)
        \<and> resp = respond 200 (TextBody text)"
    using ht r assms(1,2,4) k
    by (auto simp: handlerTry_def Let_def split: prod.splits sum.splits)
  with k w1 show ?thesis by blast
qed

text \<open>
  C1. A job in remote mode whose upload is larger than the service limit and that ends
  with a transcript. Its calls, after those recorded before, are exactly: one extraction
  of the whole audio; one probe of it; one segment extraction per range that the
  segmentation loop computes from the probed duration, in the order of the plan, into
  the files numbered 0, 1, ...; then one \<open>stat\<close> and one request per segment file, in
  the same order, each after the answer of the one before; then the deletions. The
  transcript is the join of the answers' texts in that order.
\<close>

theorem C1_segmented_path:
  assumes "TRANSCRIPTION_MODE cfg \<noteq> js ''local''" and "WHISPER_MAX_SIZE < uploadSize f"
    and "handler e cfg (Some f) w = (resp, w')" and "body resp = TextBody text"
  shows "\<exists>audioSize d0 plan sizes statSizes results outcomes final.
      planLoop SEGMENT_DURATION_SEC (case d0 of None \<Rightarrow> 0 | Some x \<Rightarrow> x) 0 [] = Some plan
    \<and> length sizes = length plan \<and> length statSizes = length plan
    \<and> length results = length plan \<and> length outcomes = Suc (length plan)
    \<and> trace w' = trace w
        @ [ExtractAudio (uploadPath f) (audioPathOf e cfg (uploadPath f)) (Inr audioSize),
           Probe (audioPathOf e cfg (uploadPath f)) (Inr d0)]
        @ segEvents (audioPathOf e cfg (uploadPath f))
            (map (segPathOf e cfg (jobIdOf e (uploadPath f))) [0..<length plan]) plan sizes
        @ apiEvents (map (segPathOf e cfg (jobIdOf e (uploadPath f))) [0..<length plan])
            statSizes results
        @ unlinkEvents (audioPathOf e cfg (uploadPath f)
              # map (segPathOf e cfg (jobIdOf e (uploadPath f))) [0..<length plan]) outcomes
        @ final
    \<and> (final = [] \<or> (\<exists>r. final = [Unlink (uploadPath f) r]))
    \<and> text = assemble (map segText results)
    \<and> resp = respond 200 (TextBody text)"
proof -
  from handler_large_text[OF assms] obtain key w1 where
    tl: "transcribeLargeFile e cfg key (uploadPath f) w = (Inr text, w1)"
    and w': "w' = handlerFinally e (Some f) w1"
    and resp: "resp = respond 200 (TextBody text)" by blast
  from handlerFinally_world[of e f w1] obtain final where
    fin: "trace w' = trace w1 @ final" "final = [] \<or> (\<exists>r. final = [Unlink (uploadPath f) r])"
    using w' by blast
  from transcribeLargeFile_ok[OF tl] obtain audioSize d0 plan sizes statSizes results outcomes
    where *: "planLoop SEGMENT_DURATION_SEC (case d0 of None \<Rightarrow> 0 | Some x \<Rightarrow> x) 0 [] = Some plan"
      "length sizes = length plan" "length statSizes = length plan"
      "length results = length plan" "length outcomes = Suc (length plan)"
      "trace w1 = trace w
        @ [ExtractAudio (uploadPath f) (audioPathOf e cfg (uploadPath f)) (Inr audioSize),
           Probe (audioPathOf e cfg (uploadPath f)) (Inr d0)]
        @ segEvents (audioPathOf e cfg (uploadPath f))
            (map (segPathOf e cfg (jobIdOf e (uploadPath f))) [0..<length plan]) plan sizes
        @ apiEvents (map (segPathOf e cfg (jobIdOf e (uploadPath f))) [0..<length plan])
            statSizes results
        @ unlinkEvents (audioPathOf e cfg (uploadPath f)
              # map (segPathOf e cfg (jobIdOf e (uploadPath f))) [0..<length plan]) outcomes"
      "text = assemble (map segText results)"
    by blast
  show ?thesis
    apply (rule exI[of _ audioSize])
    apply (rule exI[of _ d0])
    apply (rule exI[of _ plan])
    apply (rule exI[of _ sizes])
    apply (rule exI[of _ statSizes])
    apply (rule exI[of _ results])
    apply (rule exI[of _ outcomes])
    apply (rule exI[of _ final])
    using * fin resp by simp
qed

lemmas demo_defs =
  handler_def handlerTry_def handlerCatch_def handlerFinally_def respond_def
  transcribeLargeFile_def tryBlock_def extractAudio_def getDuration_def extractSegment_def
  extractSegments.simps transcribeFile_def fsStat_def fsUnlink_def emit_def
  runLocalWhisper_def demoEnv_def demoWorld_def demoConfig_def demoUpload_def
  jobIdOf_def audioPathOf_def segPathOf_def js_def Let_def SEGMENT_DURATION_SEC_def
  WHISPER_MAX_SIZE_def assemble_def segText_def orElse_def trim_def isWhiteSpace_def
  noSpeech_def newError_def showNat.simps failedRun_def

theorem C1_segmented_path_witness:
  "TRANSCRIPTION_MODE demoConfig \<noteq> js ''local''
   \<and> WHISPER_MAX_SIZE < uploadSize demoUpload
   \<and> body (fst (handler demoEnv demoConfig (Some demoUpload) demoWorld))
       = TextBody (js ''hi'' @ [0xA, 0xA] @ js ''hi'')
   \<and> planLoop SEGMENT_DURATION_SEC 700 0 [] = Some [(0, 600), (600, 100)]
   \<and> trace (snd (handler demoEnv demoConfig (Some demoUpload) demoWorld))
       = [ExtractAudio (js ''u.mp4'') (js ''t/v-audio.mp3'') (Inr 4000000),
          Probe (js ''t/v-audio.mp3'') (Inr (Some 700)),
          ExtractSegment (js ''t/v-audio.mp3'') (js ''t/v-seg-0.mp3'') 0 600 (Inr 1000000),
          ExtractSegment (js ''t/v-audio.mp3'') (js ''t/v-seg-1.mp3'') 600 100 (Inr 1000000),
          Stat (js ''t/v-seg-0.mp3'') (Inr 1000000),
          ApiCreate (js ''t/v-seg-0.mp3'') (Inr (Some (js ''hi''))),
          Stat (js ''t/v-seg-1.mp3'') (Inr 1000000),
          ApiCreate (js ''t/v-seg-1.mp3'') (Inr (Some (js ''hi''))),
          Unlink (js ''t/v-audio.mp3'') None,
          Unlink (js ''t/v-seg-0.mp3'') None,
          Unlink (js ''t/v-seg-1.mp3'') None,
          Unlink (js ''u.mp4'') None]
   \<and> (\<exists>plan results.
         planLoop SEGMENT_DURATION_SEC 700 0 [] = Some plan \<and> length results = length plan
         \<and> TextBody (js ''hi'' @ [0xA, 0xA] @ js ''hi'') = TextBody (assemble (map segText results)))"
proof -
  let ?h = "handler demoEnv demoConfig (Some demoUpload) demoWorld"
  have h1: "TRANSCRIPTION_MODE demoConfig \<noteq> js ''local''"
    by (simp add: demoConfig_def js_def)
  have h2: "WHISPER_MAX_SIZE < uploadSize demoUpload"
    by (simp add: demoUpload_def WHISPER_MAX_SIZE_def)
  have h3: "?h = (fst ?h, snd ?h)" by simp
  have h4: "body (fst ?h) = TextBody (js ''hi'' @ [0xA, 0xA] @ js ''hi'')"
    by (simp add: demo_defs)
  have pl: "planLoop SEGMENT_DURATION_SEC 700 0 [] = Some [(0, 600), (600, 100)]"
    by (simp add: planLoop.simps SEGMENT_DURATION_SEC_def Let_def)
  have tr: "trace (snd ?h)
       = [ExtractAudio (js ''u.mp4'') (js ''t/v-audio.mp3'') (Inr 4000000),
          Probe (js ''t/v-audio.mp3'') (Inr (Some 700)),
          ExtractSegment (js ''t/v-audio.mp3'') (js ''t/v-seg-0.mp3'') 0 600 (Inr 1000000),
          ExtractSegment (js ''t/v-audio.mp3'') (js ''t/v-seg-1.mp3'') 600 100 (Inr 1000000),
          Stat (js ''t/v-seg-0.mp3'') (Inr 1000000),
          ApiCreate (js ''t/v-seg-0.mp3'') (Inr (Some (js ''hi''))),
          Stat (js ''t/v-seg-1.mp3'') (Inr 1000000),
          ApiCreate (js ''t/v-seg-1.mp3'') (Inr (Some (js ''hi''))),
          Unlink (js ''t/v-audio.mp3'') None,
          Unlink (js ''t/v-seg-0.mp3'') None,
          Unlink (js ''t/v-seg-1.mp3'') None,
          Unlink (js ''u.mp4'') None]"
    by (simp add: demo_defs)
  from C1_segmented_path[OF h1 h2 h3 h4] obtain d0 plan results where
    p: "planLoop SEGMENT_DURATION_SEC (case d0 of None \<Rightarrow> 0 | Some x \<Rightarrow> x) 0 [] = Some plan"
    and l: "length results = length plan"
    and t: "js ''hi'' @ [0xA, 0xA] @ js ''hi'' = assemble (map segText results)"
    and tw: "\<exists>a s ss os fin. trace (snd ?h) = trace demoWorld
        @ [ExtractAudio (uploadPath demoUpload)
             (audioPathOf demoEnv demoConfig (uploadPath demoUpload)) (Inr a),
           Probe (audioPathOf demoEnv demoConfig (uploadPath demoUpload)) (Inr d0)]
        @ segEvents (audioPathOf demoEnv demoConfig (uploadPath demoUpload))
            (map (segPathOf demoEnv demoConfig (jobIdOf demoEnv (uploadPath demoUpload)))
               [0..<length plan]) plan s
        @ apiEvents (map (segPathOf demoEnv demoConfig (jobIdOf demoEnv (uploadPath demoUpload)))
               [0..<length plan]) ss results
        @ unlinkEvents (audioPathOf demoEnv demoConfig (uploadPath demoUpload)
              # map (segPathOf demoEnv demoConfig (jobIdOf demoEnv (uploadPath demoUpload)))
                  [0..<length plan]) os
        @ fin"
    by blast
  from tw have "d0 = Some 700"
    unfolding tr by (auto simp: demoWorld_def)
  with p have "planLoop SEGMENT_DURATION_SEC 700 0 [] = Some plan" by simp
  with l t have ex: "\<exists>plan results.
         planLoop SEGMENT_DURATION_SEC 700 0 [] = Some plan \<and> length results = length plan
         \<and> TextBody (js ''hi'' @ [0xA, 0xA] @ js ''hi'') = TextBody (assemble (map segText results))"
    by blast
  from h1 h2 h4 pl tr ex show ?thesis by (intro conjI)
qed

lemmas demo_defs2 =
  demo_defs smallUpload_def smallWorld_def localConfig_def noKeyConfig_def bigSegmentEnv_def
  partialEnv_def
  failingEnv_def errorResponse_def lowerMessageIncludes_def messageIncludes_def
  isConnectionError_def toLowerCase_def segmentTooLarge_def roundMB_def

section \<open>Cleanup\<close>

text \<open>
  What the \<open>finally\<close> block of \<open>transcribeLargeFile\<close> achieves: the result is the one
  of the \<open>try\<close> block; \<open>unlink\<close> is called once on the audio path and on each path of
  \<open>segments\<close>, in order, and nothing else is called; each of these paths is gone at the
  return unless the file system denied its deletion; nothing is logged. The files the
  \<open>try\<close> block created are among these paths, but for the output path of a segment
  extraction that failed.
\<close>

lemma transcribeLargeFile_cleanup:
  assumes "transcribeLargeFile e cfg openai filePath w = (r, w')"
  shows "\<exists>segments w1 outcomes.
        tryBlock e cfg openai filePath (jobIdOf e filePath) (audioPathOf e cfg filePath) w
          = (r, segments, w1)
      \<and> dom (files w1) \<subseteq> dom (files w) \<union> set (audioPathOf e cfg filePath # segments)
            \<union> {segPathOf e cfg (jobIdOf e filePath) (length segments)}
      \<and> length outcomes = Suc (length segments)
      \<and> trace w' = trace w1 @ unlinkEvents (audioPathOf e cfg filePath # segments) outcomes
      \<and> (\<forall>i<Suc (length segments).
            files w' ((audioPathOf e cfg filePath # segments) ! i) = None
            \<or> fsDenied e (unlinkAll e (take i (audioPathOf e cfg filePath # segments)) w1)
                 ((audioPathOf e cfg filePath # segments) ! i))
      \<and> console w' = console w"
proof -
  let ?a = "audioPathOf e cfg filePath"
  obtain segments w1 where
    tb: "tryBlock e cfg openai filePath (jobIdOf e filePath) ?a w = (r, segments, w1)"
    and w': "w' = unlinkAll e (?a # segments) w1"
    using assms by (auto simp: transcribeLargeFile_def Let_def split: prod.splits)
  from tryBlock_files[OF tb] have
    c1: "console w1 = console w"
    and f1: "dom (files w1) \<subseteq> dom (files w) \<union> set (?a # segments)
               \<union> {segPathOf e cfg (jobIdOf e filePath) (length segments)}" by blast+
  from unlinkAll_trace[of "?a # segments" e w1] obtain outcomes where
    l: "length outcomes = Suc (length segments)"
    and t: "trace w' = trace w1 @ unlinkEvents (?a # segments) outcomes"
    using w' by auto
  have rm: "\<forall>i<Suc (length segments).
            files w' ((?a # segments) ! i) = None
            \<or> fsDenied e (unlinkAll e (take i (?a # segments)) w1) ((?a # segments) ! i)"
    unfolding w' using unlinkAll_nth[of _ "?a # segments" e w1] by simp
  have c: "console w' = console w" unfolding w' by (simp only: unlinkAll_console c1)
  show ?thesis
    apply (rule exI[of _ segments])
    apply (rule exI[of _ w1])
    apply (rule exI[of _ outcomes])
    using tb f1 l t rm c by (intro conjI)
qed

text \<open>
  C2. The claim fails on the code. The media tool fails while it writes segment 1 and
  leaves 5000 bytes at \<open>t/v-seg-1.mp3\<close>. The path of a segment enters \<open>segments\<close> only
  after its extraction has completed (line 164), so the \<open>finally\<close> block deletes the
  audio render and segment 0 and returns with the file of segment 1 on disk, a temporary
  file that was not there before. The audio path, in contrast, is in \<open>toDelete\<close> whether
  its extraction completed or not (line 176).
\<close>

theorem C2_partial_segment_left:
  "fst (transcribeLargeFile partialEnv demoConfig (js ''k'') (js ''u.mp4'') demoWorld)
     = Inl (newError (js ''ffmpeg exited with code 1: No space left on device''))
   \<and> trace (snd (transcribeLargeFile partialEnv demoConfig (js ''k'') (js ''u.mp4'') demoWorld))
     = [ExtractAudio (js ''u.mp4'') (js ''t/v-audio.mp3'') (Inr 4000000),
        Probe (js ''t/v-audio.mp3'') (Inr (Some 700)),
        ExtractSegment (js ''t/v-audio.mp3'') (js ''t/v-seg-0.mp3'') 0 600 (Inr 1000000),
        ExtractSegment (js ''t/v-audio.mp3'') (js ''t/v-seg-1.mp3'') 600 100
          (Inl (newError (js ''ffmpeg exited with code 1: No space left on device''))),
        Unlink (js ''t/v-audio.mp3'') None,
        Unlink (js ''t/v-seg-0.mp3'') None]
   \<and> files demoWorld (js ''t/v-seg-1.mp3'') = None
   \<and> files (snd (transcribeLargeFile partialEnv demoConfig (js ''k'') (js ''u.mp4'') demoWorld))
        (js ''t/v-seg-1.mp3'') = Some 5000
   \<and> files (snd (transcribeLargeFile partialEnv demoConfig (js ''k'') (js ''u.mp4'') demoWorld))
        (js ''t/v-seg-0.mp3'') = None
   \<and> files (snd (transcribeLargeFile partialEnv demoConfig (js ''k'') (js ''u.mp4'') demoWorld))
        (js ''t/v-audio.mp3'') = None"
  by (simp add: demo_defs2)

section \<open>A failing segment\<close>

lemma statCalls_apiEvents:
  "length sizes = length ps \<Longrightarrow> length results = length ps
   \<Longrightarrow> statCalls (apiEvents ps sizes results) = ps"
proof (induction ps arbitrary: sizes results)
  case Nil
  then show ?case by (simp add: apiEvents_def)
next
  case (Cons p ps)
  then obtain n ns t ts where "sizes = n # ns" "results = t # ts"
    by (cases sizes; cases results) auto
  with Cons show ?case by (simp add: apiEvents_def)
qed

lemma apiCalls_apiEvents:
  "length sizes = length ps \<Longrightarrow> length results = length ps
   \<Longrightarrow> apiCalls (apiEvents ps sizes results) = ps"
proof (induction ps arbitrary: sizes results)
  case Nil
  then show ?case by (simp add: apiEvents_def)
next
  case (Cons p ps)
  then obtain n ns t ts where "sizes = n # ns" "results = t # ts"
    by (cases sizes; cases results) auto
  with Cons show ?case by (simp add: apiEvents_def)
qed

lemma statCalls_unlinkEvents: "statCalls (unlinkEvents ps outcomes) = []"
proof (induction ps arbitrary: outcomes)
  case Nil
  then show ?case by (simp add: unlinkEvents_def)
next
  case (Cons p ps)
  then show ?case by (cases outcomes) (simp_all add: unlinkEvents_def)
qed

lemma apiCalls_unlinkEvents: "apiCalls (unlinkEvents ps outcomes) = []"
proof (induction ps arbitrary: outcomes)
  case Nil
  then show ?case by (simp add: unlinkEvents_def)
next
  case (Cons p ps)
  then show ?case by (cases outcomes) (simp_all add: unlinkEvents_def)
qed

text \<open>
  C3. The audio was extracted and probed and the segments \<open>0 .. n-1\<close> were extracted;
  the transcriptions of the segments before \<open>k\<close> succeeded and the one of segment \<open>k\<close>
  throws \<open>err\<close>. Then \<open>transcribeLargeFile\<close> throws \<open>err\<close>, so no transcript,
  partial or not, is returned; after the extractions the adapter was invoked on the
  segments \<open>0 .. k\<close> only and requests were sent for segments up to \<open>k\<close> at most; and
  after the failure nothing is called but \<open>unlink\<close>, once on the audio render and on
  each of the \<open>n\<close> segment files. These are all the files created up to the failure,
  and each of them is gone at the return unless the file system denied its deletion when
  its turn came: where nothing is denied all are gone and no file is left that was not
  there before.
\<close>

theorem C3_segment_failure:
  assumes "extractAudio e filePath (audioPathOf e cfg filePath) w = (Inr a, w1)"
    and "getDuration e (audioPathOf e cfg filePath) w1 = (Inr duration, w2)"
    and "extractSegments e cfg (jobIdOf e filePath) (audioPathOf e cfg filePath) duration 0 [] w2
          = (Inr u, segments, w3)"
    and "k < length segments"
    and "transcribeAll e openai (take k segments) [] w3 = (Inr texts, wk)"
    and "transcribeFile e openai (segments ! k) wk = (Inl err, wx)"
  shows "\<exists>w' outcomes.
        transcribeLargeFile e cfg openai filePath w = (Inl err, w')
      \<and> statCalls (drop (length (trace w3)) (trace w')) = take (Suc k) segments
      \<and> (apiCalls (drop (length (trace w3)) (trace w')) = take k segments
         \<or> apiCalls (drop (length (trace w3)) (trace w')) = take (Suc k) segments)
      \<and> length outcomes = Suc (length segments)
      \<and> trace w' = trace wx @ unlinkEvents (audioPathOf e cfg filePath # segments) outcomes
      \<and> dom (files wx) \<subseteq> dom (files w) \<union> set (audioPathOf e cfg filePath # segments)
      \<and> (\<forall>i<Suc (length segments).
            files w' ((audioPathOf e cfg filePath # segments) ! i) = None
            \<or> fsDenied e (unlinkAll e (take i (audioPathOf e cfg filePath # segments)) wx)
                 ((audioPathOf e cfg filePath # segments) ! i))
      \<and> ((\<forall>w0 p0. \<not> fsDenied e w0 p0) \<longrightarrow>
            (\<forall>p\<in>set (audioPathOf e cfg filePath # segments). files w' p = None)
            \<and> dom (files w') \<subseteq> dom (files w))"
proof -
  let ?a = "audioPathOf e cfg filePath"
  let ?w' = "unlinkAll e (?a # segments) wx"
  have split: "segments = take k segments @ segments ! k # drop (Suc k) segments"
    using assms(4) by (rule id_take_nth_drop)
  have "transcribeAll e openai (take k segments @ segments ! k # drop (Suc k) segments) [] w3
        = (Inl err, wx)"
    using assms(5,6) by (rule transcribeAll_stops)
  then have ta: "transcribeAll e openai segments [] w3 = (Inl err, wx)"
    using split by simp
  have tb: "tryBlock e cfg openai filePath (jobIdOf e filePath) ?a w = (Inl err, segments, wx)"
    using assms(1,2,3) ta by (simp add: tryBlock_def)
  then have res: "transcribeLargeFile e cfg openai filePath w = (Inl err, ?w')"
    by (simp add: transcribeLargeFile_def Let_def)
  from transcribeAll_ok[OF assms(5)] obtain sizes results where
    l: "length sizes = length (take k segments)" "length results = length (take k segments)"
    and tk: "trace wk = trace w3 @ apiEvents (take k segments) sizes results" by auto
  from unlinkAll_trace[of "?a # segments" e wx] obtain outcomes where
    lo: "length outcomes = Suc (length segments)"
    and tu: "trace ?w' = trace wx @ unlinkEvents (?a # segments) outcomes" by auto
  have sk: "take (Suc k) segments = take k segments @ [segments ! k]"
    using assms(4) by (rule take_Suc_conv_app_nth)
  from transcribeFile_Inl[OF assms(6)] have calls:
    "statCalls (drop (length (trace w3)) (trace ?w')) = take (Suc k) segments
      \<and> (apiCalls (drop (length (trace w3)) (trace ?w')) = take k segments
         \<or> apiCalls (drop (length (trace w3)) (trace ?w')) = take (Suc k) segments)"
  proof
    assume "\<exists>s. trace wx = trace wk @ [Stat (segments ! k) s]"
    then obtain s where "trace wx = trace wk @ [Stat (segments ! k) s]" by blast
    then have "drop (length (trace w3)) (trace ?w')
       = apiEvents (take k segments) sizes results @ [Stat (segments ! k) s]
         @ unlinkEvents (?a # segments) outcomes"
      using tk tu by simp
    then show ?thesis
      using l sk
      by (simp add: statCalls_append apiCalls_append statCalls_apiEvents apiCalls_apiEvents
          statCalls_unlinkEvents apiCalls_unlinkEvents del: unlinkAll.simps)
  next
    assume "\<exists>n. trace wx = trace wk @ [Stat (segments ! k) (Inr n), ApiCreate (segments ! k) (Inl err)]"
    then obtain n where
      "trace wx = trace wk @ [Stat (segments ! k) (Inr n), ApiCreate (segments ! k) (Inl err)]"
      by blast
    then have "drop (length (trace w3)) (trace ?w')
       = apiEvents (take k segments) sizes results
         @ [Stat (segments ! k) (Inr n), ApiCreate (segments ! k) (Inl err)]
         @ unlinkEvents (?a # segments) outcomes"
      using tk tu by simp
    then show ?thesis
      using l sk
      by (simp add: statCalls_append apiCalls_append statCalls_apiEvents apiCalls_apiEvents
          statCalls_unlinkEvents apiCalls_unlinkEvents del: unlinkAll.simps)
  qed
  from extractAudio_Inr[OF assms(1)] have f1: "dom (files w1) \<subseteq> dom (files w) \<union> {?a}" by auto
  from getDuration_Inr[OF assms(2)] have f2: "files w2 = files w1" by auto
  from extractSegments_files[OF assms(3)] have
    f3: "dom (files w3) \<subseteq> dom (files w2) \<union> set segments" by simp
  from transcribeAll_world[OF assms(5)] transcribeFile_world[OF assms(6)]
  have f4: "files wx = files w3" by simp
  from f3 have "dom (files wx) \<subseteq> dom (files w1) \<union> set segments"
    unfolding f4 f2 .
  with f1 have created: "dom (files wx) \<subseteq> dom (files w) \<union> set (?a # segments)"
    unfolding list.set by blast
  have gone: "\<forall>i<Suc (length segments).
            files ?w' ((?a # segments) ! i) = None
            \<or> fsDenied e (unlinkAll e (take i (?a # segments)) wx) ((?a # segments) ! i)"
    using unlinkAll_nth[of _ "?a # segments" e wx] by simp
  have clean: "(\<forall>w0 p0. \<not> fsDenied e w0 p0) \<longrightarrow>
            (\<forall>p\<in>set (?a # segments). files ?w' p = None) \<and> dom (files ?w') \<subseteq> dom (files w)"
  proof
    assume nd: "\<forall>w0 p0. \<not> fsDenied e w0 p0"
    have all: "\<forall>p\<in>set (?a # segments). files ?w' p = None"
      using unlinkAll_all_gone[OF nd, of _ "?a # segments" wx] by blast
    have sub: "dom (files ?w') \<subseteq> dom (files wx)" by (rule unlinkAll_files_subset)
    have "dom (files ?w') \<subseteq> dom (files w)"
    proof
      fix x
      assume x: "x \<in> dom (files ?w')"
      with sub have "x \<in> dom (files wx)" by blast
      with created have "x \<in> dom (files w) \<or> x \<in> set (?a # segments)" by blast
      moreover have "x \<notin> set (?a # segments)"
      proof
        assume "x \<in> set (?a # segments)"
        with all have "files ?w' x = None" by (rule bspec)
        moreover from x have "files ?w' x \<noteq> None" unfolding domIff .
        ultimately show False by blast
      qed
      ultimately show "x \<in> dom (files w)" by blast
    qed
    with all show "(\<forall>p\<in>set (?a # segments). files ?w' p = None)
                   \<and> dom (files ?w') \<subseteq> dom (files w)" by (intro conjI)
  qed
  show ?thesis
    apply (rule exI[of _ ?w'])
    apply (rule exI[of _ outcomes])
    using res calls lo tu created gone clean by (intro conjI) blast+
qed

text \<open>
  A run of three segments where the service fails on the second one: the third is never
  sent, and the audio render and the three segment files are gone at the return.
\<close>

theorem C3_segment_failure_witness:
  "(1::nat) < length [js ''t/v-seg-0.mp3'', js ''t/v-seg-1.mp3'', js ''t/v-seg-2.mp3''] - 1
   \<and> fst (transcribeLargeFile failingEnv demoConfig (js ''k'') (js ''u.mp4'') demoWorld)
       = Inl (newError (js ''boom''))
   \<and> apiCalls (trace (snd (transcribeLargeFile failingEnv demoConfig (js ''k'') (js ''u.mp4'')
         demoWorld)))
       = [js ''t/v-seg-0.mp3'', js ''t/v-seg-1.mp3'']
   \<and> files (snd (extractAudio failingEnv (js ''u.mp4'') (js ''t/v-audio.mp3'') demoWorld))
        (js ''t/v-audio.mp3'') = Some 4000000
   \<and> (\<forall>w0 p0. \<not> fsDenied failingEnv w0 p0)
   \<and> (\<exists>w' (outcomes :: jserror option list).
         transcribeLargeFile failingEnv demoConfig (js ''k'') (js ''u.mp4'') demoWorld
           = (Inl (newError (js ''boom'')), w')
         \<and> length outcomes = 4
         \<and> files w' (js ''t/v-audio.mp3'') = None
         \<and> files w' (js ''t/v-seg-0.mp3'') = None
         \<and> files w' (js ''t/v-seg-1.mp3'') = None
         \<and> files w' (js ''t/v-seg-2.mp3'') = None
         \<and> dom (files w') \<subseteq> dom (files demoWorld))"
proof -
  let ?e = failingEnv
  let ?a = "audioPathOf ?e demoConfig (js ''u.mp4'')"
  let ?j = "jobIdOf ?e (js ''u.mp4'')"
  let ?segs = "[js ''t/v-seg-0.mp3'', js ''t/v-seg-1.mp3'', js ''t/v-seg-2.mp3'']"
  let ?w1 = "snd (extractAudio ?e (js ''u.mp4'') ?a demoWorld)"
  let ?w2 = "snd (getDuration ?e ?a ?w1)"
  let ?w3 = "snd (snd (extractSegments ?e demoConfig ?j ?a 1500 0 [] ?w2))"
  let ?wk = "snd (transcribeAll ?e (js ''k'') (take 1 ?segs) [] ?w3)"
  let ?wx = "snd (transcribeFile ?e (js ''k'') (?segs ! 1) ?wk)"
  note defs = demo_defs failingEnv_def
  have h1: "extractAudio ?e (js ''u.mp4'') ?a demoWorld = (Inr ?a, ?w1)"
    by (simp add: defs)
  have h2: "getDuration ?e ?a ?w1 = (Inr 1500, ?w2)"
    by (simp add: defs)
  have h3: "extractSegments ?e demoConfig ?j ?a 1500 0 [] ?w2 = (Inr (), ?segs, ?w3)"
    by (simp add: defs)
  have h4: "1 < length ?segs" by simp
  have h5: "transcribeAll ?e (js ''k'') (take 1 ?segs) [] ?w3 = (Inr [js ''hi''], ?wk)"
    by (simp add: defs)
  have h6: "transcribeFile ?e (js ''k'') (?segs ! 1) ?wk = (Inl (newError (js ''boom'')), ?wx)"
    by (simp add: defs)
  have nd: "\<forall>w0 p0. \<not> fsDenied ?e w0 p0"
    by (simp add: defs)
  have a: "?a = js ''t/v-audio.mp3''"
    by (simp add: defs)
  note big = C3_segment_failure[OF h1 h2 h3 h4 h5 h6]
  have ex: "\<exists>w' (outcomes :: jserror option list).
         transcribeLargeFile ?e demoConfig (js ''k'') (js ''u.mp4'') demoWorld
           = (Inl (newError (js ''boom'')), w')
         \<and> length outcomes = 4
         \<and> files w' (js ''t/v-audio.mp3'') = None
         \<and> files w' (js ''t/v-seg-0.mp3'') = None
         \<and> files w' (js ''t/v-seg-1.mp3'') = None
         \<and> files w' (js ''t/v-seg-2.mp3'') = None
         \<and> dom (files w') \<subseteq> dom (files demoWorld)"
    using big
    apply (elim exE conjE)
    subgoal premises prems for w' outcomes
    proof -
      from prems(8) nd have
        g: "\<forall>p\<in>set (?a # ?segs). files w' p = None"
        and d: "dom (files w') \<subseteq> dom (files demoWorld)" by blast+
      from g have "files w' (js ''t/v-audio.mp3'') = None" "files w' (js ''t/v-seg-0.mp3'') = None"
        "files w' (js ''t/v-seg-1.mp3'') = None" "files w' (js ''t/v-seg-2.mp3'') = None"
        unfolding a by simp_all
      moreover have "length outcomes = 4" using prems(4) by simp
      ultimately show ?thesis using prems(1) d by blast
    qed
    done
  then obtain w' where
    r: "transcribeLargeFile ?e demoConfig (js ''k'') (js ''u.mp4'') demoWorld
          = (Inl (newError (js ''boom'')), w')"
    by (elim exE conjE)
  have c1: "(1::nat) < length ?segs - 1" by simp
  have c2: "fst (transcribeLargeFile ?e demoConfig (js ''k'') (js ''u.mp4'') demoWorld)
       = Inl (newError (js ''boom''))"
    using r by simp
  have c3: "apiCalls (trace (snd (transcribeLargeFile ?e demoConfig (js ''k'') (js ''u.mp4'')
         demoWorld)))
       = [js ''t/v-seg-0.mp3'', js ''t/v-seg-1.mp3'']"
    by (simp add: defs)
  have c4: "files (snd (extractAudio ?e (js ''u.mp4'') (js ''t/v-audio.mp3'') demoWorld))
        (js ''t/v-audio.mp3'') = Some 4000000"
    by (simp add: defs)
  from c1 c2 c3 c4 nd ex show ?thesis by (intro conjI)
qed

section \<open>Dispatch\<close>

lemma runLocalWhisper_world:
  assumes "runLocalWhisper e p w = (r, w')"
  shows "trace w' = trace w @ [Spawn p (python e w p)] \<and> files w' = files w
         \<and> console w' = console w"
  using assms
  by (auto simp: runLocalWhisper_def Let_def split: procOutcome.splits option.splits if_splits)

lemma handlerCatch_trace: "trace (snd (handlerCatch (r, w))) = trace w"
  by (cases r) (simp_all add: handlerCatch_def)

lemma handler_unfold:
  assumes "handler e cfg reqFile w = (resp, w')"
  shows "resp = fst (handlerCatch (handlerTry e cfg reqFile w))
         \<and> w' = handlerFinally e reqFile (snd (handlerCatch (handlerTry e cfg reqFile w)))"
  using assms by (auto simp: handler_def split: prod.splits)

lemma handler_trace:
  assumes "handler e cfg (Some f) w = (resp, w')"
  shows "\<exists>final. trace w' = trace (snd (handlerTry e cfg (Some f) w)) @ final
           \<and> (final = [] \<or> (\<exists>r. final = [Unlink (uploadPath f) r]))"
proof -
  obtain r w1 where ht: "handlerTry e cfg (Some f) w = (r, w1)" by force
  from handler_unfold[OF assms] have "w' = handlerFinally e (Some f) (snd (handlerCatch (r, w1)))"
    using ht by simp
  with handlerFinally_world[of e f "snd (handlerCatch (r, w1))"] handlerCatch_trace[of r w1] ht
  show ?thesis by auto
qed

lemma handlerTry_local:
  assumes "TRANSCRIPTION_MODE cfg = js ''local''"
  shows "trace (snd (handlerTry e cfg (Some f) w))
         = trace w @ [Spawn (uploadPath f) (python e w (uploadPath f))]"
proof -
  obtain r w1 where rl: "runLocalWhisper e (uploadPath f) w = (r, w1)" by force
  then have "snd (handlerTry e cfg (Some f) w) = w1"
    using assms by (cases r) (simp_all add: handlerTry_def)
  with runLocalWhisper_world[OF rl] show ?thesis by simp
qed

lemma handlerTry_no_key:
  assumes "TRANSCRIPTION_MODE cfg \<noteq> js ''local''" and "orElse (OPENAI_API_KEY cfg) [] = []"
  shows "handlerTry e cfg (Some f) w
         = (Inr (respond 500 (ErrorBody (js
              ''OPENAI_API_KEY is not set. Add it to .env for API mode, or set TRANSCRIPTION_MODE=local for local Whisper.''))), w)"
  using assms by (simp add: handlerTry_def)

lemma handlerTry_single:
  assumes "TRANSCRIPTION_MODE cfg \<noteq> js ''local''" and "orElse (OPENAI_API_KEY cfg) [] \<noteq> []"
    and "uploadSize f \<le> WHISPER_MAX_SIZE"
  shows "handlerTry e cfg (Some f) w
         = (case transcribeFile e (orElse (OPENAI_API_KEY cfg) []) (uploadPath f) w of
              (Inl err, w1) \<Rightarrow> (Inl err, w1)
            | (Inr transcription, w1) \<Rightarrow>
                (Inr (respond 200 (TextBody (orElse transcription noSpeech))), w1))"
  using assms by (simp add: handlerTry_def Let_def)

lemma transcribeFile_calls:
  "\<exists>s api. trace (snd (transcribeFile e k p w)) = trace w @ Stat p s # api
     \<and> (api = [] \<or> (\<exists>r. api = [ApiCreate p r]))
     \<and> (files w p = Some n \<and> \<not> fsDenied e w p \<and> n \<le> WHISPER_MAX_SIZE
          \<longrightarrow> (\<exists>r. api = [ApiCreate p r]))"
  by (auto simp: transcribeFile_def fsStat_def Let_def split: option.splits sum.splits)

text \<open>
  C7, as amended. The dispatch of the handler depends on the mode, on whether an API key
  is set, and on the size of the upload. In local mode, whatever the size, the calls of
  the job are one spawn of the local process on the upload and the final deletion of
  the upload: no media tool, no \<open>stat\<close>, no request. In remote mode with a key and a
  size at or under the limit, the adapter is invoked once on the upload (one \<open>stat\<close>)
  and sends at most one request, exactly one when the stored file has the accepted
  size; no media tool is called. In remote mode without a key nothing is called before
  the final deletion and the answer is 500.
\<close>

theorem C7_dispatch:
  assumes "handler e cfg (Some f) w = (resp, w')"
  shows "(TRANSCRIPTION_MODE cfg = js ''local'' \<longrightarrow>
            spawnCalls (drop (length (trace w)) (trace w')) = [uploadPath f]
          \<and> mediaCalls (drop (length (trace w)) (trace w')) = []
          \<and> statCalls (drop (length (trace w)) (trace w')) = []
          \<and> apiCalls (drop (length (trace w)) (trace w')) = [])
       \<and> (TRANSCRIPTION_MODE cfg \<noteq> js ''local'' \<and> orElse (OPENAI_API_KEY cfg) [] \<noteq> []
            \<and> uploadSize f \<le> WHISPER_MAX_SIZE \<longrightarrow>
            statCalls (drop (length (trace w)) (trace w')) = [uploadPath f]
          \<and> length (apiCalls (drop (length (trace w)) (trace w'))) \<le> 1
          \<and> (files w (uploadPath f) = Some (uploadSize f) \<and> \<not> fsDenied e w (uploadPath f)
               \<longrightarrow> apiCalls (drop (length (trace w)) (trace w')) = [uploadPath f])
          \<and> mediaCalls (drop (length (trace w)) (trace w')) = []
          \<and> spawnCalls (drop (length (trace w)) (trace w')) = [])
       \<and> (TRANSCRIPTION_MODE cfg \<noteq> js ''local'' \<and> orElse (OPENAI_API_KEY cfg) [] = [] \<longrightarrow>
            statusCode resp = 500
          \<and> spawnCalls (drop (length (trace w)) (trace w')) = []
          \<and> mediaCalls (drop (length (trace w)) (trace w')) = []
          \<and> statCalls (drop (length (trace w)) (trace w')) = []
          \<and> apiCalls (drop (length (trace w)) (trace w')) = [])"
proof -
  from handler_trace[OF assms] obtain final where
    tr: "trace w' = trace (snd (handlerTry e cfg (Some f) w)) @ final"
    and fin: "final = [] \<or> (\<exists>r. final = [Unlink (uploadPath f) r])" by blast
  have f0: "spawnCalls final = []" "mediaCalls final = []" "statCalls final = []"
    "apiCalls final = []"
    using fin by auto
  have a: ?thesis if loc: "TRANSCRIPTION_MODE cfg = js ''local''"
    using tr f0 loc handlerTry_local[OF loc, of e f w]
    by (simp add: spawnCalls_append mediaCalls_append statCalls_append apiCalls_append)
  have b: ?thesis
    if rem: "TRANSCRIPTION_MODE cfg \<noteq> js ''local''" and nokey: "orElse (OPENAI_API_KEY cfg) [] = []"
  proof -
    from handler_unfold[OF assms] have "statusCode resp = 500"
      by (simp add: handlerTry_no_key[OF rem nokey] handlerCatch_def)
    then show ?thesis
      using tr f0 rem nokey handlerTry_no_key[OF rem nokey, of e f w] by simp
  qed
  have c: ?thesis
    if rem: "TRANSCRIPTION_MODE cfg \<noteq> js ''local''" and key: "orElse (OPENAI_API_KEY cfg) [] \<noteq> []"
  proof (cases "uploadSize f \<le> WHISPER_MAX_SIZE")
    case False
    then show ?thesis using rem key by simp
  next
    case True
    let ?k = "orElse (OPENAI_API_KEY cfg) []"
    obtain r w1 where tf: "transcribeFile e ?k (uploadPath f) w = (r, w1)" by force
    have "snd (handlerTry e cfg (Some f) w) = w1"
      using tf by (cases r) (simp_all add: handlerTry_single[OF rem key True])
    with tr have tr': "trace w' = trace w1 @ final" by simp
    from transcribeFile_calls[of e ?k "uploadPath f" w "uploadSize f"] tf obtain s api where
      t1: "trace w1 = trace w @ Stat (uploadPath f) s # api"
      and api: "api = [] \<or> (\<exists>r. api = [ApiCreate (uploadPath f) r])"
      and sent: "files w (uploadPath f) = Some (uploadSize f) \<and> \<not> fsDenied e w (uploadPath f)
          \<longrightarrow> (\<exists>r. api = [ApiCreate (uploadPath f) r])"
      using True by auto
    have new: "drop (length (trace w)) (trace w') = Stat (uploadPath f) s # api @ final"
      using tr' t1 by simp
    from api show ?thesis
    proof
      assume "api = []"
      then show ?thesis using new f0 rem key True sent by simp
    next
      assume "\<exists>r. api = [ApiCreate (uploadPath f) r]"
      then obtain r' where "api = [ApiCreate (uploadPath f) r']" by blast
      then show ?thesis using new f0 rem key True by simp
    qed
  qed
  from a b c show ?thesis by blast
qed

theorem C7_dispatch_witness:
  "TRANSCRIPTION_MODE demoConfig \<noteq> js ''local''
   \<and> orElse (OPENAI_API_KEY demoConfig) [] \<noteq> []
   \<and> uploadSize smallUpload \<le> WHISPER_MAX_SIZE
   \<and> files smallWorld (uploadPath smallUpload) = Some (uploadSize smallUpload)
   \<and> \<not> fsDenied demoEnv smallWorld (uploadPath smallUpload)
   \<and> apiCalls (drop (length (trace smallWorld))
        (trace (snd (handler demoEnv demoConfig (Some smallUpload) smallWorld))))
       = [uploadPath smallUpload]
   \<and> mediaCalls (drop (length (trace smallWorld))
        (trace (snd (handler demoEnv demoConfig (Some smallUpload) smallWorld)))) = []
   \<and> TRANSCRIPTION_MODE localConfig = js ''local''
   \<and> spawnCalls (drop (length (trace demoWorld))
        (trace (snd (handler demoEnv localConfig (Some demoUpload) demoWorld))))
       = [uploadPath demoUpload]
   \<and> mediaCalls (drop (length (trace demoWorld))
        (trace (snd (handler demoEnv localConfig (Some demoUpload) demoWorld)))) = []"
proof -
  let ?h = "handler demoEnv demoConfig (Some smallUpload) smallWorld"
  let ?l = "handler demoEnv localConfig (Some demoUpload) demoWorld"
  have h: "?h = (fst ?h, snd ?h)" and l: "?l = (fst ?l, snd ?l)" by simp_all
  have a1: "TRANSCRIPTION_MODE demoConfig \<noteq> js ''local''"
    and a2: "orElse (OPENAI_API_KEY demoConfig) [] \<noteq> []"
    and a3: "uploadSize smallUpload \<le> WHISPER_MAX_SIZE"
    and a4: "files smallWorld (uploadPath smallUpload) = Some (uploadSize smallUpload)"
    and a5: "\<not> fsDenied demoEnv smallWorld (uploadPath smallUpload)"
    and b1: "TRANSCRIPTION_MODE localConfig = js ''local''"
    by (simp_all add: demo_defs2)
  from C7_dispatch[OF h] a1 a2 a3 a4 a5 have
    c1: "apiCalls (drop (length (trace smallWorld)) (trace (snd ?h))) = [uploadPath smallUpload]"
    and c2: "mediaCalls (drop (length (trace smallWorld)) (trace (snd ?h))) = []"
    by blast+
  from C7_dispatch[OF l] b1 have
    d1: "spawnCalls (drop (length (trace demoWorld)) (trace (snd ?l))) = [uploadPath demoUpload]"
    and d2: "mediaCalls (drop (length (trace demoWorld)) (trace (snd ?l))) = []"
    by blast+
  from a1 a2 a3 a4 a5 c1 c2 b1 d1 d2 show ?thesis by (intro conjI)
qed

text \<open>
  The claim as it was stated fails in remote mode without a key: with the same mode and
  the same small upload, the service is called once when the key is set and not at all
  when it is not, and the answer is then 500.
\<close>

theorem C7_dispatch_counterexample:
  "TRANSCRIPTION_MODE noKeyConfig = TRANSCRIPTION_MODE demoConfig
   \<and> TRANSCRIPTION_MODE noKeyConfig \<noteq> js ''local''
   \<and> uploadSize smallUpload \<le> WHISPER_MAX_SIZE
   \<and> files smallWorld (uploadPath smallUpload) = Some (uploadSize smallUpload)
   \<and> apiCalls (trace (snd (handler demoEnv demoConfig (Some smallUpload) smallWorld)))
       = [js ''s.mp3'']
   \<and> apiCalls (trace (snd (handler demoEnv noKeyConfig (Some smallUpload) smallWorld))) = []
   \<and> trace (snd (handler demoEnv noKeyConfig (Some smallUpload) smallWorld))
       = [Unlink (js ''s.mp3'') None]
   \<and> fst (handler demoEnv noKeyConfig (Some smallUpload) smallWorld)
       = respond 500 (ErrorBody (js
           ''OPENAI_API_KEY is not set. Add it to .env for API mode, or set TRANSCRIPTION_MODE=local for local Whisper.''))"
  by (simp add: demo_defs2)

section \<open>The responses\<close>

lemma startsWith_subset: "startsWith h n \<Longrightarrow> set n \<subseteq> set h"
  by (induction h n rule: startsWith.induct) auto

lemma includesStr_subset: "includesStr h n \<Longrightarrow> set n \<subseteq> set h"
proof (induction h)
  case Nil
  then show ?case by simp
next
  case (Cons c cs)
  then show ?case using startsWith_subset[of "c # cs" n] by auto
qed

lemma digit_range:
  assumes "d < 10"
  shows "48 \<le> unat (of_nat (48 + d) :: jschar) \<and> unat (of_nat (48 + d) :: jschar) \<le> 57"
proof -
  have "d \<in> {0, 1, 2, 3, 4, 5, 6, 7, 8, 9}" using assms by auto
  then show ?thesis by auto
qed

lemma showNat_range: "c \<in> set (showNat n) \<Longrightarrow> 48 \<le> unat c \<and> unat c \<le> 57"
proof (induction n arbitrary: c rule: showNat.induct)
  case (1 n)
  show ?case
  proof (cases "n < 10")
    case True
    then have "c = of_nat (48 + n)" using 1(2) by (subst (asm) showNat.simps) simp
    with digit_range[OF True] show ?thesis by simp
  next
    case False
    then have "c \<in> set (showNat (n div 10)) \<or> c = of_nat (48 + n mod 10)"
      using 1(2) by (subst (asm) showNat.simps) auto
    then show ?thesis
    proof
      assume "c \<in> set (showNat (n div 10))"
      with 1(1)[OF False] show ?thesis by blast
    next
      assume "c = of_nat (48 + n mod 10)"
      with digit_range[of "n mod 10"] show ?thesis by simp
    qed
  qed
qed

lemma segmentTooLarge_message:
  "message (segmentTooLarge n)
   = Some (js ''Segment too large ('' @ showNat (roundMB n) @ js '' MB). Try shorter segments.'')"
  and segmentTooLarge_fields:
  "status (segmentTooLarge n) = None" "name (segmentTooLarge n) = Some (js ''Error'')"
  "code (segmentTooLarge n) = None" "causeCode (segmentTooLarge n) = None"
  by (simp_all add: segmentTooLarge_def newError_def)

lemma lower_is_f:
  assumes "(if 0x41 \<le> c \<and> c \<le> 0x5A then c + 0x20 else c) = (0x66 :: jschar)"
  shows "c = 0x66 \<or> c = 0x46"
proof (cases "0x41 \<le> c \<and> c \<le> 0x5A")
  case True
  with assms have "c + 0x20 = 0x66" by simp
  then have "c = 0x66 - 0x20" by (simp add: eq_diff_eq)
  then show ?thesis by simp
next
  case False
  with assms show ?thesis by simp
qed

lemma segmentTooLarge_no_f:
  "0x66 \<notin> set (toLowerCase
      (js ''Segment too large ('' @ showNat k @ js '' MB). Try shorter segments.''))"
proof
  let ?m = "js ''Segment too large ('' @ showNat k @ js '' MB). Try shorter segments.''"
  assume a: "0x66 \<in> set (toLowerCase ?m)"
  have "set (toLowerCase ?m) = (\<lambda>c. if 0x41 \<le> c \<and> c \<le> 0x5A then c + 0x20 else c) ` set ?m"
    by (simp only: toLowerCase_def set_map)
  with a obtain c where c: "c \<in> set ?m"
    and l: "0x66 = (if 0x41 \<le> c \<and> c \<le> 0x5A then c + 0x20 else c)"
    by blast
  from lower_is_f[OF l[symmetric]] have cf: "c = 0x66 \<or> c = 0x46" .
  from c have "c \<in> set (js ''Segment too large ('') \<or> c \<in> set (showNat k)
               \<or> c \<in> set (js '' MB). Try shorter segments.'')" by simp
  then show False
  proof (elim disjE)
    assume "c \<in> set (showNat k)"
    from showNat_range[OF this] cf show False by auto
  next
    assume "c \<in> set (js ''Segment too large ('')"
    with cf show False by (auto simp: js_def)
  next
    assume "c \<in> set (js '' MB). Try shorter segments.'')"
    with cf show False by (auto simp: js_def)
  qed
qed

lemma segmentTooLarge_no_I:
  "0x49 \<notin> set (js ''Segment too large ('' @ showNat k @ js '' MB). Try shorter segments.'')"
proof
  assume "0x49 \<in> set (js ''Segment too large ('' @ showNat k @ js '' MB). Try shorter segments.'')"
  then have "0x49 \<in> set (js ''Segment too large ('') \<or> 0x49 \<in> set (showNat k)
             \<or> 0x49 \<in> set (js '' MB). Try shorter segments.'')" by simp
  then show False
  proof (elim disjE)
    assume "0x49 \<in> set (showNat k)"
    from showNat_range[OF this] show False by simp
  next
    assume "0x49 \<in> set (js ''Segment too large ('')"
    then show False by (simp add: js_def)
  next
    assume "0x49 \<in> set (js '' MB). Try shorter segments.'')"
    then show False by (simp add: js_def)
  qed
qed

lemma errorResponse_segmentTooLarge:
  "errorResponse (segmentTooLarge n)
   = respond 500 (ErrorBody
       (js ''Segment too large ('' @ showNat (roundMB n) @ js '' MB). Try shorter segments.''))"
proof -
  let ?m = "js ''Segment too large ('' @ showNat (roundMB n) @ js '' MB). Try shorter segments.''"
  have f1: "\<not> includesStr (toLowerCase ?m) (js ''ffmpeg'')"
    using includesStr_subset[of "toLowerCase ?m" "js ''ffmpeg''"] segmentTooLarge_no_f[of "roundMB n"]
    by (auto simp: js_def)
  have f2: "\<not> includesStr (toLowerCase ?m) (js ''ffprobe'')"
    using includesStr_subset[of "toLowerCase ?m" "js ''ffprobe''"] segmentTooLarge_no_f[of "roundMB n"]
    by (auto simp: js_def)
  have f3: "\<not> includesStr ?m (js ''Invalid file type'')"
    using includesStr_subset[of ?m "js ''Invalid file type''"] segmentTooLarge_no_I[of "roundMB n"]
    by (auto simp: js_def)
  have ne: "?m \<noteq> []" by (simp add: js_def)
  have e1: "lowerMessageIncludes (segmentTooLarge n) (js ''ffmpeg'') = False"
    and e2: "lowerMessageIncludes (segmentTooLarge n) (js ''ffprobe'') = False"
    and e3: "messageIncludes (segmentTooLarge n) (js ''Invalid file type'') = False"
    using f1 f2 f3
    by (simp_all only: lowerMessageIncludes_def messageIncludes_def segmentTooLarge_message
        option.case)
  have e4: "isConnectionError (segmentTooLarge n) = False"
    by (simp add: isConnectionError_def segmentTooLarge_fields js_def)
  have e5: "orElse (message (segmentTooLarge n)) (js ''Transcription failed. Please try again.'')
            = ?m"
    using ne by (simp only: segmentTooLarge_message orElse_def option.case if_False)
  show ?thesis
    unfolding errorResponse_def e1 e2 e3 e4 e5 segmentTooLarge_fields by simp
qed

lemma handlerTry_Inr_shape:
  assumes "handlerTry e cfg reqFile w = (Inr r, w1)"
  shows "(\<exists>t. reqFile \<noteq> None \<and> r = respond 200 (TextBody t))
       \<or> (reqFile = None \<and> r = respond 400 (ErrorBody (js ''No file uploaded'')))
       \<or> (reqFile \<noteq> None \<and> TRANSCRIPTION_MODE cfg \<noteq> js ''local''
            \<and> orElse (OPENAI_API_KEY cfg) [] = []
            \<and> r = respond 500 (ErrorBody (js
          ''OPENAI_API_KEY is not set. Add it to .env for API mode, or set TRANSCRIPTION_MODE=local for local Whisper.'')))"
  using assms
  by (auto simp: handlerTry_def Let_def split: option.splits prod.splits sum.splits if_splits)

lemma errorResponse_status:
  "statusCode (errorResponse err) =
     (if lowerMessageIncludes err (js ''ffmpeg'') \<or> lowerMessageIncludes err (js ''ffprobe'')
      then 500
      else if status err = Some 401 then 401
      else if status err = Some 429 then 429
      else if isConnectionError err then 503
      else if code err = Some (js ''LIMIT_FILE_SIZE'')
              \<or> messageIncludes err (js ''Invalid file type'') then 400
      else 500)"
  by (simp add: errorResponse_def)

lemma handlerCatch_Inl: "fst (handlerCatch (Inl err, w)) = errorResponse err"
  by (simp add: handlerCatch_def)

lemma handlerCatch_Inr: "fst (handlerCatch (Inr r, w)) = r"
  by (simp add: handlerCatch_def)

lemma handler_fst:
  "fst (handler e cfg reqFile w) = fst (handlerCatch (handlerTry e cfg reqFile w))"
  by (simp add: handler_def split: prod.splits)

lemma handler_response:
  "fst (handler e cfg reqFile w) =
     (case reqFile of
        None \<Rightarrow> respond 400 (ErrorBody (js ''No file uploaded''))
      | Some f \<Rightarrow>
          if TRANSCRIPTION_MODE cfg = js ''local'' then
            (case fst (runLocalWhisper e (uploadPath f) w) of
               Inl err \<Rightarrow> errorResponse err
             | Inr text \<Rightarrow> respond 200 (TextBody text))
          else if orElse (OPENAI_API_KEY cfg) [] = [] then
            respond 500 (ErrorBody (js
              ''OPENAI_API_KEY is not set. Add it to .env for API mode, or set TRANSCRIPTION_MODE=local for local Whisper.''))
          else if uploadSize f \<le> WHISPER_MAX_SIZE then
            (case fst (transcribeFile e (orElse (OPENAI_API_KEY cfg) []) (uploadPath f) w) of
               Inl err \<Rightarrow> errorResponse err
             | Inr transcription \<Rightarrow> respond 200 (TextBody (orElse transcription noSpeech)))
          else
            (case fst (transcribeLargeFile e cfg (orElse (OPENAI_API_KEY cfg) []) (uploadPath f) w) of
               Inl err \<Rightarrow> errorResponse err
             | Inr text \<Rightarrow> respond 200 (TextBody text)))"
proof (cases reqFile)
  case None
  then show ?thesis by (simp add: handler_def handlerTry_def handlerCatch_def)
next
  case (Some f)
  obtain rl wl where l: "runLocalWhisper e (uploadPath f) w = (rl, wl)" by force
  obtain rs ws where s:
    "transcribeFile e (orElse (OPENAI_API_KEY cfg) []) (uploadPath f) w = (rs, ws)" by force
  obtain rb wb where b:
    "transcribeLargeFile e cfg (orElse (OPENAI_API_KEY cfg) []) (uploadPath f) w = (rb, wb)"
    by force
  have "fst (handlerCatch (handlerTry e cfg (Some f) w)) =
     (if TRANSCRIPTION_MODE cfg = js ''local'' then
            (case rl of
               Inl err \<Rightarrow> errorResponse err
             | Inr text \<Rightarrow> respond 200 (TextBody text))
          else if orElse (OPENAI_API_KEY cfg) [] = [] then
            respond 500 (ErrorBody (js
              ''OPENAI_API_KEY is not set. Add it to .env for API mode, or set TRANSCRIPTION_MODE=local for local Whisper.''))
          else if uploadSize f \<le> WHISPER_MAX_SIZE then
            (case rs of
               Inl err \<Rightarrow> errorResponse err
             | Inr transcription \<Rightarrow> respond 200 (TextBody (orElse transcription noSpeech)))
          else
            (case rb of
               Inl err \<Rightarrow> errorResponse err
             | Inr text \<Rightarrow> respond 200 (TextBody text)))"
    unfolding handlerTry_def Let_def option.case l s b prod.case
    by (cases rl; cases rs; cases rb) (simp_all add: handlerCatch_Inl handlerCatch_Inr)
  then show ?thesis
    by (simp only: handler_fst Some option.case l s b fst_conv)
qed

text \<open>
  C8, as amended. The response of the handler is determined as follows. Without an upload
  it is 400 with \<open>{ error: 'No file uploaded' }\<close>. In local mode it is what the local
  backend gives; in remote mode without an API key it is 500 with the message about
  \<open>OPENAI_API_KEY\<close>; otherwise it is what the single request or the segmented path
  gives, by the size of the upload. What a backend gives is 200 with \<open>{ text }\<close> when it
  returns, and when it throws \<open>err\<close> the \<open>{ error }\<close> response of the \<open>catch\<close> block for
  \<open>err\<close>, whose status is that of the first test that applies: 500 when the message
  mentions ffmpeg or ffprobe, 401 for status 401, 429 for status 429, 503 for a connection
  error, 400 for the code \<open>LIMIT_FILE_SIZE\<close> or a message with "Invalid file type", and
  500 otherwise. The segment-too-large error of \<open>transcribeFile\<close> matches none of the
  tests before the last: when it is thrown the answer is 500 with the error's own message.
\<close>

theorem C8_responses:
  assumes "handler e cfg reqFile w = (resp, w')"
  shows "resp =
     (case reqFile of
        None \<Rightarrow> respond 400 (ErrorBody (js ''No file uploaded''))
      | Some f \<Rightarrow>
          if TRANSCRIPTION_MODE cfg = js ''local'' then
            (case fst (runLocalWhisper e (uploadPath f) w) of
               Inl err \<Rightarrow> errorResponse err
             | Inr text \<Rightarrow> respond 200 (TextBody text))
          else if orElse (OPENAI_API_KEY cfg) [] = [] then
            respond 500 (ErrorBody (js
              ''OPENAI_API_KEY is not set. Add it to .env for API mode, or set TRANSCRIPTION_MODE=local for local Whisper.''))
          else if uploadSize f \<le> WHISPER_MAX_SIZE then
            (case fst (transcribeFile e (orElse (OPENAI_API_KEY cfg) []) (uploadPath f) w) of
               Inl err \<Rightarrow> errorResponse err
             | Inr transcription \<Rightarrow> respond 200 (TextBody (orElse transcription noSpeech)))
          else
            (case fst (transcribeLargeFile e cfg (orElse (OPENAI_API_KEY cfg) []) (uploadPath f) w) of
               Inl err \<Rightarrow> errorResponse err
             | Inr text \<Rightarrow> respond 200 (TextBody text)))
       \<and> (\<forall>err w1. handlerTry e cfg reqFile w = (Inl err, w1) \<longrightarrow> resp = errorResponse err)
       \<and> (\<forall>m w1. handlerTry e cfg reqFile w = (Inl (segmentTooLarge m), w1) \<longrightarrow>
            resp = respond 500 (ErrorBody
               (js ''Segment too large ('' @ showNat (roundMB m) @ js '' MB). Try shorter segments.'')))
       \<and> (\<exists>m. body (errorResponse err') = ErrorBody m)
       \<and> statusCode (errorResponse err') =
            (if lowerMessageIncludes err' (js ''ffmpeg'') \<or> lowerMessageIncludes err' (js ''ffprobe'')
             then 500
             else if status err' = Some 401 then 401
             else if status err' = Some 429 then 429
             else if isConnectionError err' then 503
             else if code err' = Some (js ''LIMIT_FILE_SIZE'')
                     \<or> messageIncludes err' (js ''Invalid file type'') then 400
             else 500)
       \<and> errorResponse (segmentTooLarge n)
           = respond 500 (ErrorBody
               (js ''Segment too large ('' @ showNat (roundMB n) @ js '' MB). Try shorter segments.''))"
proof -
  have r: "resp = fst (handler e cfg reqFile w)" using assms by simp
  have 1: "resp =
     (case reqFile of
        None \<Rightarrow> respond 400 (ErrorBody (js ''No file uploaded''))
      | Some f \<Rightarrow>
          if TRANSCRIPTION_MODE cfg = js ''local'' then
            (case fst (runLocalWhisper e (uploadPath f) w) of
               Inl err \<Rightarrow> errorResponse err
             | Inr text \<Rightarrow> respond 200 (TextBody text))
          else if orElse (OPENAI_API_KEY cfg) [] = [] then
            respond 500 (ErrorBody (js
              ''OPENAI_API_KEY is not set. Add it to .env for API mode, or set TRANSCRIPTION_MODE=local for local Whisper.''))
          else if uploadSize f \<le> WHISPER_MAX_SIZE then
            (case fst (transcribeFile e (orElse (OPENAI_API_KEY cfg) []) (uploadPath f) w) of
               Inl err \<Rightarrow> errorResponse err
             | Inr transcription \<Rightarrow> respond 200 (TextBody (orElse transcription noSpeech)))
          else
            (case fst (transcribeLargeFile e cfg (orElse (OPENAI_API_KEY cfg) []) (uploadPath f) w) of
               Inl err \<Rightarrow> errorResponse err
             | Inr text \<Rightarrow> respond 200 (TextBody text)))"
    unfolding r by (rule handler_response)
  have 2: "\<forall>err w1. handlerTry e cfg reqFile w = (Inl err, w1) \<longrightarrow> resp = errorResponse err"
  proof (intro allI impI)
    fix err w1
    assume "handlerTry e cfg reqFile w = (Inl err, w1)"
    with handler_unfold[OF assms] show "resp = errorResponse err"
      by (simp add: handlerCatch_Inl)
  qed
  have 3: "\<forall>m w1. handlerTry e cfg reqFile w = (Inl (segmentTooLarge m), w1) \<longrightarrow>
            resp = respond 500 (ErrorBody
               (js ''Segment too large ('' @ showNat (roundMB m) @ js '' MB). Try shorter segments.''))"
  proof (intro allI impI)
    fix m w1
    assume "handlerTry e cfg reqFile w = (Inl (segmentTooLarge m), w1)"
    with 2 have "resp = errorResponse (segmentTooLarge m)" by blast
    then show "resp = respond 500 (ErrorBody
               (js ''Segment too large ('' @ showNat (roundMB m) @ js '' MB). Try shorter segments.''))"
      by (simp only: errorResponse_segmentTooLarge)
  qed
  from 1 2 3 errorResponse_shape[of err'] errorResponse_status[of err']
    errorResponse_segmentTooLarge[of n]
  show ?thesis by (intro conjI)
qed

text \<open>
  Five requests: no upload (400); remote mode without a key (500); a small upload that the
  service transcribes (200); one that it refuses with status 401 (401); and a large upload
  whose segment files exceed the limit of the service (500).
\<close>

theorem C8_responses_witness:
  "fst (handler demoEnv demoConfig None demoWorld)
     = respond 400 (ErrorBody (js ''No file uploaded''))
   \<and> fst (handler demoEnv noKeyConfig (Some smallUpload) smallWorld)
     = respond 500 (ErrorBody (js
         ''OPENAI_API_KEY is not set. Add it to .env for API mode, or set TRANSCRIPTION_MODE=local for local Whisper.''))
   \<and> fst (handler demoEnv demoConfig (Some smallUpload) smallWorld)
     = respond 200 (TextBody (js ''hi''))
   \<and> fst (handler unauthorizedEnv demoConfig (Some smallUpload) smallWorld)
     = respond 401 (ErrorBody (js ''Invalid API key. Check your OPENAI_API_KEY.''))
   \<and> fst (handler bigSegmentEnv demoConfig (Some demoUpload) demoWorld)
     = respond 500 (ErrorBody
         (js ''Segment too large ('' @ showNat (roundMB 30000000) @ js '' MB). Try shorter segments.''))"
proof -
  let ?h0 = "handler demoEnv demoConfig None demoWorld"
  let ?h1 = "handler demoEnv noKeyConfig (Some smallUpload) smallWorld"
  let ?h2 = "handler demoEnv demoConfig (Some smallUpload) smallWorld"
  let ?h3 = "handler unauthorizedEnv demoConfig (Some smallUpload) smallWorld"
  let ?h4 = "handler bigSegmentEnv demoConfig (Some demoUpload) demoWorld"
  let ?t4 = "handlerTry bigSegmentEnv demoConfig (Some demoUpload) demoWorld"
  note defs = demo_defs2 unauthorizedEnv_def
  have h0: "?h0 = (fst ?h0, snd ?h0)" by simp
  have h1: "?h1 = (fst ?h1, snd ?h1)" by simp
  have h2: "?h2 = (fst ?h2, snd ?h2)" by simp
  have h3: "?h3 = (fst ?h3, snd ?h3)" by simp
  have h4: "?h4 = (fst ?h4, snd ?h4)" by simp
  have c0: "fst ?h0 = respond 400 (ErrorBody (js ''No file uploaded''))"
    using C8_responses[OF h0, THEN conjunct1] by simp
  have k1: "TRANSCRIPTION_MODE noKeyConfig \<noteq> js ''local''"
    "orElse (OPENAI_API_KEY noKeyConfig) [] = []"
    by (simp_all add: defs)
  have c1: "fst ?h1 = respond 500 (ErrorBody (js
         ''OPENAI_API_KEY is not set. Add it to .env for API mode, or set TRANSCRIPTION_MODE=local for local Whisper.''))"
    using C8_responses[OF h1, THEN conjunct1] k1 by simp
  have k2: "TRANSCRIPTION_MODE demoConfig \<noteq> js ''local''"
    "orElse (OPENAI_API_KEY demoConfig) [] = js ''k''"
    "js ''k'' \<noteq> []"
    "uploadSize smallUpload \<le> WHISPER_MAX_SIZE"
    "uploadPath smallUpload = js ''s.mp3''"
    "fst (transcribeFile demoEnv (js ''k'') (js ''s.mp3'') smallWorld) = Inr (Some (js ''hi''))"
    "fst (transcribeFile unauthorizedEnv (js ''k'') (js ''s.mp3'') smallWorld)
       = Inl ((newError (js ''Incorrect API key provided''))\<lparr>status := Some 401\<rparr>)"
    by (simp_all add: defs)
  have k3: "orElse (Some (js ''hi'')) noSpeech = js ''hi''"
    "errorResponse ((newError (js ''Incorrect API key provided''))\<lparr>status := Some 401\<rparr>)
       = respond 401 (ErrorBody (js ''Invalid API key. Check your OPENAI_API_KEY.''))"
    by (simp_all add: defs)
  have c2: "fst ?h2 = respond 200 (TextBody (js ''hi''))"
    using C8_responses[OF h2, THEN conjunct1] k2 k3 by simp
  have c3: "fst ?h3 = respond 401 (ErrorBody (js ''Invalid API key. Check your OPENAI_API_KEY.''))"
    using C8_responses[OF h3, THEN conjunct1] k2 k3 by simp
  have t4: "?t4 = (Inl (segmentTooLarge 30000000), snd ?t4)"
    by (simp add: defs)
  have c4: "fst ?h4 = respond 500 (ErrorBody
         (js ''Segment too large ('' @ showNat (roundMB 30000000) @ js '' MB). Try shorter segments.''))"
    using C8_responses[OF h4, THEN conjunct2, THEN conjunct2, THEN conjunct1] t4 by blast
  from c0 c1 c2 c3 c4 show ?thesis by (intro conjI)
qed

text \<open>
  The claim as it was stated fails for an oversized segment: with segment files of 30 MB
  the handler answers 500, not 400.
\<close>

theorem C8_responses_counterexample:
  "WHISPER_MAX_SIZE < 30000000
   \<and> handlerTry bigSegmentEnv demoConfig (Some demoUpload) demoWorld
       = (Inl (segmentTooLarge 30000000),
          snd (handlerTry bigSegmentEnv demoConfig (Some demoUpload) demoWorld))
   \<and> fst (handler bigSegmentEnv demoConfig (Some demoUpload) demoWorld)
       = respond 500 (ErrorBody (js ''Segment too large (29 MB). Try shorter segments.''))
   \<and> statusCode (fst (handler bigSegmentEnv demoConfig (Some demoUpload) demoWorld)) \<noteq> 400"
  by (simp add: demo_defs2)

section \<open>The transcript is never empty\<close>

lemma noSpeech_nonempty: "noSpeech \<noteq> []"
  by (simp add: noSpeech_def js_def)

lemma orElse_nonempty: "b \<noteq> [] \<Longrightarrow> orElse a b \<noteq> []"
  by (simp add: orElse_def split: option.splits)

lemma assemble_nonempty: "assemble texts \<noteq> []"
  by (simp add: assemble_def orElse_nonempty noSpeech_nonempty)

lemma runLocalWhisper_Inr:
  assumes "runLocalWhisper e p w = (Inr t, w1)"
  shows "\<exists>stdout stderr field.
           python e w p = Closed (Some 0) stdout stderr
         \<and> jsonField e (trim stdout) (js ''text'') = Some field
         \<and> t = orElse field noSpeech"
  using assms
  by (auto simp: runLocalWhisper_def Let_def split: procOutcome.splits option.splits if_splits)

lemma transcribeLargeFile_Inr_nonempty:
  assumes "transcribeLargeFile e cfg k p w = (Inr t, w1)"
  shows "t \<noteq> []"
proof -
  obtain segs w4 where
    "tryBlock e cfg k p (jobIdOf e p) (audioPathOf e cfg p) w = (Inr t, segs, w4)"
    using assms by (auto simp: transcribeLargeFile_def Let_def split: prod.splits)
  from tryBlock_Inr[OF this] obtain texts where "t = assemble texts" by auto
  then show ?thesis by (simp add: assemble_nonempty)
qed

lemma handlerTry_text:
  assumes "handlerTry e cfg reqFile w = (Inr (respond 200 (TextBody t)), w1)"
  shows "\<exists>f. reqFile = Some f
     \<and> (if TRANSCRIPTION_MODE cfg = js ''local''
         then runLocalWhisper e (uploadPath f) w = (Inr t, w1)
         else if uploadSize f \<le> WHISPER_MAX_SIZE
         then (\<exists>transcription.
                 transcribeFile e (orElse (OPENAI_API_KEY cfg) []) (uploadPath f) w
                   = (Inr transcription, w1)
               \<and> t = orElse transcription noSpeech)
         else transcribeLargeFile e cfg (orElse (OPENAI_API_KEY cfg) []) (uploadPath f) w
                = (Inr t, w1))"
  using assms
  by (auto simp: handlerTry_def Let_def respond_def
      split: option.splits prod.splits sum.splits if_splits)

lemma chunks_nonempty:
  "transcribeLocalChunks transcriber audioData = Inr t \<Longrightarrow> t \<noteq> []"
  by (auto simp: transcribeLocalChunks_def orElse_nonempty noSpeech_nonempty split: sum.splits)

text \<open>
  C9. Whenever the handler answers with a transcript, the transcript is not the empty
  string, in every mode. In local mode it is the \<open>text\<close> of the process's output, and
  in the remote single-shot path the \<open>text\<close> of the transcription, each replaced by the
  sentinel "(No speech detected)" when it is missing or empty; in the segmented path it
  is the join, which is the sentinel when empty. The chunked local transcription of
  \<open>lib/local-whisper.js\<close> never returns the empty string either.
\<close>

theorem C9_never_empty:
  assumes "handler e cfg reqFile w = (resp, w')" and "body resp = TextBody t"
  shows "t \<noteq> []
     \<and> (\<exists>f w1. reqFile = Some f
         \<and> (if TRANSCRIPTION_MODE cfg = js ''local''
             then (\<exists>stdout stderr field.
                     python e w (uploadPath f) = Closed (Some 0) stdout stderr
                   \<and> jsonField e (trim stdout) (js ''text'') = Some field
                   \<and> t = orElse field noSpeech)
             else if uploadSize f \<le> WHISPER_MAX_SIZE
             then (\<exists>transcription.
                     transcribeFile e (orElse (OPENAI_API_KEY cfg) []) (uploadPath f) w
                       = (Inr transcription, w1)
                   \<and> t = orElse transcription noSpeech)
             else transcribeLargeFile e cfg (orElse (OPENAI_API_KEY cfg) []) (uploadPath f) w
                    = (Inr t, w1)))
     \<and> orElse None noSpeech = js ''(No speech detected)''
     \<and> orElse (Some []) noSpeech = js ''(No speech detected)''
     \<and> (\<forall>t'. transcribeLocalChunks transcriber audioData = Inr t' \<longrightarrow> t' \<noteq> [])"
proof -
  obtain r w1 where ht: "handlerTry e cfg reqFile w = (r, w1)" by force
  from handler_unfold[OF assms(1)] have resp: "resp = fst (handlerCatch (r, w1))"
    using ht by simp
  have r: "r = Inr resp"
  proof (cases r)
    case (Inl err)
    then have "resp = errorResponse err" using resp by (simp add: handlerCatch_def)
    with errorResponse_shape[of err] assms(2) show ?thesis by auto
  next
    case (Inr x)
    then show ?thesis using resp by (simp add: handlerCatch_def)
  qed
  from handlerTry_Inr_shape[OF ht[unfolded r]] assms(2)
  have "resp = respond 200 (TextBody t)" by auto
  with ht r have ht': "handlerTry e cfg reqFile w = (Inr (respond 200 (TextBody t)), w1)" by simp
  from handlerTry_text[OF ht'] obtain f where f: "reqFile = Some f"
    and br: "if TRANSCRIPTION_MODE cfg = js ''local''
         then runLocalWhisper e (uploadPath f) w = (Inr t, w1)
         else if uploadSize f \<le> WHISPER_MAX_SIZE
         then (\<exists>transcription.
                 transcribeFile e (orElse (OPENAI_API_KEY cfg) []) (uploadPath f) w
                   = (Inr transcription, w1)
               \<and> t = orElse transcription noSpeech)
         else transcribeLargeFile e cfg (orElse (OPENAI_API_KEY cfg) []) (uploadPath f) w
                = (Inr t, w1)"
    by blast
  have br': "if TRANSCRIPTION_MODE cfg = js ''local''
             then (\<exists>stdout stderr field.
                     python e w (uploadPath f) = Closed (Some 0) stdout stderr
                   \<and> jsonField e (trim stdout) (js ''text'') = Some field
                   \<and> t = orElse field noSpeech)
             else if uploadSize f \<le> WHISPER_MAX_SIZE
             then (\<exists>transcription.
                     transcribeFile e (orElse (OPENAI_API_KEY cfg) []) (uploadPath f) w
                       = (Inr transcription, w1)
                   \<and> t = orElse transcription noSpeech)
             else transcribeLargeFile e cfg (orElse (OPENAI_API_KEY cfg) []) (uploadPath f) w
                    = (Inr t, w1)"
    using br runLocalWhisper_Inr[of e "uploadPath f" w t w1] by (auto split: if_splits)
  have ne: "t \<noteq> []"
    using br' transcribeLargeFile_Inr_nonempty orElse_nonempty[OF noSpeech_nonempty]
    by (auto split: if_splits)
  have s: "orElse None noSpeech = js ''(No speech detected)''"
    "orElse (Some []) noSpeech = js ''(No speech detected)''"
    by (simp_all add: orElse_def noSpeech_def)
  have c: "\<forall>t'. transcribeLocalChunks transcriber audioData = Inr t' \<longrightarrow> t' \<noteq> []"
    using chunks_nonempty by blast
  from f br' have ex: "\<exists>f w1. reqFile = Some f
         \<and> (if TRANSCRIPTION_MODE cfg = js ''local''
             then (\<exists>stdout stderr field.
                     python e w (uploadPath f) = Closed (Some 0) stdout stderr
                   \<and> jsonField e (trim stdout) (js ''text'') = Some field
                   \<and> t = orElse field noSpeech)
             else if uploadSize f \<le> WHISPER_MAX_SIZE
             then (\<exists>transcription.
                     transcribeFile e (orElse (OPENAI_API_KEY cfg) []) (uploadPath f) w
                       = (Inr transcription, w1)
                   \<and> t = orElse transcription noSpeech)
             else transcribeLargeFile e cfg (orElse (OPENAI_API_KEY cfg) []) (uploadPath f) w
                    = (Inr t, w1))"
    by blast
  from ne ex s c show ?thesis by (intro conjI)
qed

text \<open>
  The local process prints an object without a \<open>text\<close>, and a service answers with the
  empty text: both responses carry the sentinel.
\<close>

theorem C9_never_empty_witness:
  "body (fst (handler demoEnv localConfig (Some demoUpload) demoWorld))
     = TextBody (js ''(No speech detected)'')
   \<and> body (fst (handler (demoEnv\<lparr>whisperCreate := (\<lambda>w key p. Inr (Some []))\<rparr>) demoConfig
               (Some smallUpload) smallWorld))
     = TextBody (js ''(No speech detected)'')
   \<and> js ''(No speech detected)'' \<noteq> []"
proof -
  let ?h = "handler demoEnv localConfig (Some demoUpload) demoWorld"
  let ?g = "handler (demoEnv\<lparr>whisperCreate := (\<lambda>w key p. Inr (Some []))\<rparr>) demoConfig
               (Some smallUpload) smallWorld"
  have h: "?h = (fst ?h, snd ?h)" by simp
  have b: "body (fst ?h) = TextBody (js ''(No speech detected)'')"
    by (simp add: demo_defs2)
  have g: "body (fst ?g) = TextBody (js ''(No speech detected)'')"
    by (simp add: demo_defs2)
  from C9_never_empty[OF h b] have "js ''(No speech detected)'' \<noteq> []" by blast
  with b g show ?thesis by (intro conjI)
qed

section \<open>The upload is deleted\<close>

text \<open>
  C10. When an upload was stored (\<open>req.file\<close> is there, with its path), the response is
  the one the \<open>try\<close> and \<open>catch\<close> blocks determined, on success and on every failure,
  and the last call of the handler is one \<open>unlink\<close> of the upload. The \<open>unlink\<close>
  succeeds exactly when the upload is still there and the file system does not deny its
  deletion: then the file is gone at the end and nothing is logged. Otherwise it fails
  with the error of the file system, the files are as they were and one warning with the
  error's message is logged; the response is the same either way. So at the end of the
  handler the upload is gone unless the file system denied its deletion.
\<close>

theorem C10_upload_unlinked:
  assumes "handler e cfg (Some f) w = (resp, w')" and "uploadPath f \<noteq> []"
  shows "\<exists>w1 r. handlerCatch (handlerTry e cfg (Some f) w) = (resp, w1)
           \<and> trace w' = trace w1 @ [Unlink (uploadPath f) r]
           \<and> (r = None) = (files w1 (uploadPath f) \<noteq> None \<and> \<not> fsDenied e w1 (uploadPath f))
           \<and> (case r of
                 None \<Rightarrow> files w' = (files w1)(uploadPath f := None) \<and> console w' = console w1
               | Some err \<Rightarrow> err = fsFault e w1 (uploadPath f) \<and> files w' = files w1
                   \<and> console w' = console w1
                       @ [ConsoleWarn (js ''Could not delete temp file:'') (message err)])
           \<and> (files w' (uploadPath f) = None \<or> fsDenied e w1 (uploadPath f))
           \<and> (\<forall>p. p \<noteq> uploadPath f \<longrightarrow> files w' p = files w1 p)"
proof -
  let ?p = "uploadPath f"
  obtain resp1 w1 where hc: "handlerCatch (handlerTry e cfg (Some f) w) = (resp1, w1)" by force
  with assms(1) have resp: "resp1 = resp" and w': "w' = handlerFinally e (Some f) w1"
    by (simp_all add: handler_def)
  obtain r w2 where u: "fsUnlink e ?p w1 = (r, w2)" by force
  note fw = fsUnlink_world[OF u]
  have 1: "trace w' = trace w1 @ [Unlink ?p r]"
    using assms(2) u fw w' by (cases r) (simp_all add: handlerFinally_def)
  have 2: "(r = None) = (files w1 ?p \<noteq> None \<and> \<not> fsDenied e w1 ?p)"
    using u by (auto simp: fsUnlink_def split: if_splits)
  have 3: "(case r of
                 None \<Rightarrow> files w' = (files w1)(?p := None) \<and> console w' = console w1
               | Some err \<Rightarrow> err = fsFault e w1 ?p \<and> files w' = files w1
                   \<and> console w' = console w1
                       @ [ConsoleWarn (js ''Could not delete temp file:'') (message err)])"
  proof (cases r)
    case None
    then show ?thesis using assms(2) u fw w' by (simp add: handlerFinally_def)
  next
    case (Some err)
    with u have "err = fsFault e w1 ?p" by (auto simp: fsUnlink_def split: if_splits)
    then show ?thesis using Some assms(2) u fw w' by (simp add: handlerFinally_def)
  qed
  have fl: "files w' = files w2"
    using assms(2) u w' by (cases r) (simp_all add: handlerFinally_def)
  have 4: "files w' ?p = None \<or> fsDenied e w1 ?p"
    using fsUnlink_gone[OF u] unfolding fl .
  have 5: "\<forall>p. p \<noteq> ?p \<longrightarrow> files w' p = files w1 p"
    using fw unfolding fl by (cases r) simp_all
  from hc[unfolded resp] 1 2 3 4 5 show ?thesis by blast
qed

text \<open>
  Two runs in local mode. In the first the stored upload is there when the handler ends:
  it is deleted and nothing is logged. In the second it has vanished before: the deletion
  fails, a warning is logged and the response is the transcript all the same.
\<close>

theorem C10_upload_unlinked_witness:
  "uploadPath demoUpload \<noteq> []
   \<and> files demoWorld (js ''u.mp4'') = Some 30000000
   \<and> handler demoEnv localConfig (Some demoUpload) demoWorld
       = (respond 200 (TextBody (js ''(No speech detected)'')),
          \<lparr>files = Map.empty,
           trace = [Spawn (js ''u.mp4'') (Closed (Some 0) (js ''{}'') []),
                    Unlink (js ''u.mp4'') None],
           console = []\<rparr>)
   \<and> files (snd (handler demoEnv localConfig (Some demoUpload) demoWorld)) (uploadPath demoUpload)
       = None
   \<and> handler demoEnv localConfig (Some demoUpload) (demoWorld\<lparr>files := Map.empty\<rparr>)
       = (respond 200 (TextBody (js ''(No speech detected)'')),
          \<lparr>files = Map.empty,
           trace = [Spawn (js ''u.mp4'') (Closed (Some 0) (js ''{}'') []),
                    Unlink (js ''u.mp4'') (Some (newError (js ''ENOENT'')))],
           console = [ConsoleWarn (js ''Could not delete temp file:'') (Some (js ''ENOENT''))]\<rparr>)
   \<and> (\<exists>w1 r. handlerCatch (handlerTry demoEnv localConfig (Some demoUpload)
                   (demoWorld\<lparr>files := Map.empty\<rparr>))
                = (fst (handler demoEnv localConfig (Some demoUpload)
                         (demoWorld\<lparr>files := Map.empty\<rparr>)), w1)
           \<and> trace (snd (handler demoEnv localConfig (Some demoUpload)
                         (demoWorld\<lparr>files := Map.empty\<rparr>)))
              = trace w1 @ [Unlink (uploadPath demoUpload) r])"
proof -
  let ?g = "handler demoEnv localConfig (Some demoUpload) demoWorld"
  let ?h = "handler demoEnv localConfig (Some demoUpload) (demoWorld\<lparr>files := Map.empty\<rparr>)"
  have p: "uploadPath demoUpload \<noteq> []" by (simp add: demo_defs2)
  have f: "files demoWorld (js ''u.mp4'') = Some 30000000" by (simp add: demo_defs2)
  have nd: "\<And>w1. \<not> fsDenied demoEnv w1 (uploadPath demoUpload)" by (simp add: demo_defs2)
  have g: "?g
       = (respond 200 (TextBody (js ''(No speech detected)'')),
          \<lparr>files = Map.empty,
           trace = [Spawn (js ''u.mp4'') (Closed (Some 0) (js ''{}'') []),
                    Unlink (js ''u.mp4'') None],
           console = []\<rparr>)"
    by (simp add: demo_defs2)
  have gp: "?g = (fst ?g, snd ?g)" by simp
  from C10_upload_unlinked[OF gp p] nd
  have gone: "files (snd ?g) (uploadPath demoUpload) = None"
    by blast
  have h: "?h
       = (respond 200 (TextBody (js ''(No speech detected)'')),
          \<lparr>files = Map.empty,
           trace = [Spawn (js ''u.mp4'') (Closed (Some 0) (js ''{}'') []),
                    Unlink (js ''u.mp4'') (Some (newError (js ''ENOENT'')))],
           console = [ConsoleWarn (js ''Could not delete temp file:'') (Some (js ''ENOENT''))]\<rparr>)"
    by (simp add: demo_defs2)
  have hp: "?h = (fst ?h, snd ?h)" by simp
  from C10_upload_unlinked[OF hp p]
  have "\<exists>w1 r. handlerCatch (handlerTry demoEnv localConfig (Some demoUpload)
                   (demoWorld\<lparr>files := Map.empty\<rparr>))
                = (fst ?h, w1)
           \<and> trace (snd ?h) = trace w1 @ [Unlink (uploadPath demoUpload) r]"
    by blast
  with p f g gone h show ?thesis by (intro conjI)
qed

end
